theory Spec2Isabelle
  imports Main "HOL-Library.AList"
begin

section \<open>Data model of the balancer (balancer.py)\<close>

text \<open>
  Every entry of \<^verbatim>\<open>BACKENDS\<close> is a dict with the seven keys below. The entries are
  mutated in place through references, so the model keeps the list as the store and
  uses the position of an entry in \<^verbatim>\<open>BACKENDS\<close> as the reference to it.
\<close>

record backend =
  name :: string
  url :: string
  healthy :: bool
  weight :: int
  active :: int
  ok :: int
  fail :: int

text \<open>The two module globals that are written at run time.\<close>

record globals =
  BACKENDS :: "backend list"
  ROUND_ROBIN_INDEX :: int

text \<open>
  The configuration constants the proxy handler reads. \<^verbatim>\<open>STICKY_COOKIE\<close> may be set
  to \<^verbatim>\<open>None\<close> to disable stickiness.
\<close>

record config =
  STICKY_COOKIE :: "string option"
  STICKY_TTL_SECONDS :: int

definition source_config :: config where
  "source_config = \<lparr>STICKY_COOKIE = Some ''LB_NODE'', STICKY_TTL_SECONDS = 600\<rparr>"

definition source_globals :: globals where
  "source_globals =
     \<lparr>BACKENDS =
        [\<lparr>name = ''s1'', url = ''http://127.0.0.1:8001'', healthy = True, weight = 1,
          active = 0, ok = 0, fail = 0\<rparr>,
         \<lparr>name = ''s2'', url = ''http://127.0.0.1:8002'', healthy = True, weight = 1,
          active = 0, ok = 0, fail = 0\<rparr>],
      ROUND_ROBIN_INDEX = 0\<rparr>"

text \<open>Python truthiness of \<^verbatim>\<open>STICKY_COOKIE\<close>: \<^verbatim>\<open>None\<close> and the empty string are false.\<close>

definition sticky_on :: "config \<Rightarrow> bool" where
  "sticky_on cfg = (case STICKY_COOKIE cfg of None \<Rightarrow> False | Some n \<Rightarrow> n \<noteq> [])"

definition HOP_BY_HOP :: "string set" where
  "HOP_BY_HOP =
     {''connection'', ''keep-alive'', ''proxy-authenticate'', ''proxy-authorization'',
      ''te'', ''trailers'', ''transfer-encoding'', ''upgrade''}"

text \<open>
  \<^verbatim>\<open>str.lower\<close> on header names. Header names are ASCII tokens and strings are byte
  lists here, so only the letters A to Z are mapped.
\<close>

definition lower_char :: "char \<Rightarrow> char" where
  "lower_char c =
     (case map_of (zip ''ABCDEFGHIJKLMNOPQRSTUVWXYZ'' ''abcdefghijklmnopqrstuvwxyz'') c of
        Some l \<Rightarrow> l
      | None \<Rightarrow> c)"

definition lower :: "string \<Rightarrow> string" where
  "lower s = map lower_char s"

definition hop :: "string \<Rightarrow> bool" where
  "hop k = (lower k \<in> HOP_BY_HOP)"

subsection \<open>Requests, responses, JSON\<close>

datatype json =
  JNull | JBool bool | JInt int | JStr string | JArr "json list" | JObj "(string \<times> json) list"

text \<open>The keys of a JSON object.\<close>

fun obj_keys :: "json \<Rightarrow> string list" where
  "obj_keys (JObj kvs) = map fst kvs"
| "obj_keys _ = []"

datatype body = JsonBody json | RawBody string

record cookie =
  c_name :: string
  c_value :: string
  c_max_age :: int
  c_path :: string
  c_httponly :: bool

text \<open>
  A response as the handler builds it: the status, the headers the handler passes or
  sets, the body and the cookies added with \<^verbatim>\<open>set_cookie\<close>. Headers the framework
  adds when it sends the response (Content-Type, Content-Length, Date) are not part of
  the model.
\<close>

record response =
  status :: int
  out_headers :: "(string \<times> string) list"
  out_body :: body
  out_cookies :: "cookie list"

text \<open>
  \<^verbatim>\<open>request.transport\<close> is \<^verbatim>\<open>None\<close> once the connection is lost; otherwise
  \<^verbatim>\<open>get_extra_info('peername')\<close> gives the peer address or \<^verbatim>\<open>None\<close>.
\<close>

datatype transport = NoTransport | Transport "(string \<times> nat) option"

text \<open>
  \<^verbatim>\<open>request.headers.items()\<close> yields every header line as a pair, in order, repeated
  names included; \<^verbatim>\<open>request.cookies\<close> is a mapping.
\<close>

record request =
  cookies :: "string \<rightharpoonup> string"
  headers :: "(string \<times> string) list"
  transport :: transport
  scheme :: string
  http_method :: string
  path_qs :: string
  content :: string

text \<open>What \<^verbatim>\<open>sess.request(...)\<close> is called with.\<close>

record upstream_request =
  up_method :: string
  up_url :: string
  up_headers :: "(string \<times> string) list"
  up_data :: string

record upstream_response =
  resp_status :: int
  resp_headers :: "(string \<times> string) list"
  payload :: string

definition json_response :: "json \<Rightarrow> int \<Rightarrow> response" where
  "json_response data st =
     \<lparr>status = st, out_headers = [], out_body = JsonBody data, out_cookies = []\<rparr>"

subsection \<open>Dictionaries and header containers\<close>

text \<open>
  A plain Python dict keeps insertion order; assigning to an existing key replaces the
  value where the key already is, assigning to a new key appends.
\<close>

definition dict_set :: "('k \<times> 'v) list \<Rightarrow> 'k \<Rightarrow> 'v \<Rightarrow> ('k \<times> 'v) list" where
  "dict_set d k v = AList.update k v d"

definition dict_get :: "('k \<times> 'v) list \<Rightarrow> 'k \<Rightarrow> 'v option" where
  "dict_get d k = map_of d k"

text \<open>The dict comprehension \<^verbatim>\<open>{k: v for k, v in items}\<close>.\<close>

definition dict_of_items :: "('k \<times> 'v) list \<Rightarrow> ('k \<times> 'v) list" where
  "dict_of_items items = foldl (\<lambda>d (k, v). dict_set d k v) [] items"

text \<open>
  \<^verbatim>\<open>out.headers[k] = v\<close> on the case-insensitive multidict of a response: the first
  entry with that name is replaced in place and later ones are removed; without such
  an entry the pair is appended.
\<close>

fun ci_set :: "(string \<times> string) list \<Rightarrow> string \<Rightarrow> string \<Rightarrow> (string \<times> string) list" where
  "ci_set [] k v = [(k, v)]"
| "ci_set (p # ps) k v =
     (if lower (fst p) = lower k then (k, v) # filter (\<lambda>q. lower (fst q) \<noteq> lower k) ps
      else p # ci_set ps k v)"

text \<open>\<^verbatim>\<open>str\<close> of an integer.\<close>

fun digits :: "nat \<Rightarrow> string" where
  "digits n =
     (if n < 10 then [''0123456789'' ! n]
      else digits (n div 10) @ [''0123456789'' ! (n mod 10)])"

declare digits.simps [simp del]

definition str_int :: "int \<Rightarrow> string" where
  "str_int i = (if i < 0 then CHR ''-'' # digits (nat (- i)) else digits (nat i))"

section \<open>Picking a backend\<close>

text \<open>\<^verbatim>\<open>[b for b in BACKENDS if b["healthy"]]\<close>, as a list of references.\<close>

definition healthy_refs :: "backend list \<Rightarrow> nat list" where
  "healthy_refs bs = filter (\<lambda>i. healthy (bs ! i)) [0..<length bs]"

definition pick_backend_rr :: "globals \<Rightarrow> nat option \<times> globals" where
  "pick_backend_rr g =
     (let hs = healthy_refs (BACKENDS g) in
      if hs = [] then (None, g)
      else (Some (hs ! nat (ROUND_ROBIN_INDEX g mod int (length hs))),
            g\<lparr>ROUND_ROBIN_INDEX := ROUND_ROBIN_INDEX g + 1\<rparr>))"

text \<open>
  The loop over the healthy backends returns the first one whose name equals the cookie
  value; \<^verbatim>\<open>if cookie_val:\<close> skips the loop for \<^verbatim>\<open>None\<close> and for the empty string.
\<close>

definition pick_backend_sticky :: "string option \<Rightarrow> globals \<Rightarrow> nat option \<times> globals" where
  "pick_backend_sticky cookie_val g =
     (let hs = healthy_refs (BACKENDS g) in
      if hs = [] then (None, g)
      else (case cookie_val of
              None \<Rightarrow> pick_backend_rr g
            | Some c \<Rightarrow>
                if c = [] then pick_backend_rr g
                else (case find (\<lambda>i. name (BACKENDS g ! i) = c) hs of
                        Some i \<Rightarrow> (Some i, g)
                      | None \<Rightarrow> pick_backend_rr g)))"

text \<open>\<open>n\<close> consecutive calls of \<^verbatim>\<open>pick_backend_rr\<close>, with the picks in call order.\<close>

fun rr_calls :: "nat \<Rightarrow> globals \<Rightarrow> nat option list \<times> globals" where
  "rr_calls 0 g = ([], g)"
| "rr_calls (Suc n) g =
     (let (b, g1) = pick_backend_rr g; (bs, g2) = rr_calls n g1 in (b # bs, g2))"

text \<open>\<open>n\<close> consecutive calls of \<^verbatim>\<open>pick_backend_sticky\<close> with the same cookie value.\<close>

fun sticky_calls :: "nat \<Rightarrow> string option \<Rightarrow> globals \<Rightarrow> nat option list \<times> globals" where
  "sticky_calls 0 cookie_val g = ([], g)"
| "sticky_calls (Suc n) cookie_val g =
     (let (b, g1) = pick_backend_sticky cookie_val g; (bs, g2) = sticky_calls n cookie_val g1
      in (b # bs, g2))"

text \<open>The value \<open>c\<close> is the name of a backend that is healthy now.\<close>

definition names_healthy :: "string \<Rightarrow> globals \<Rightarrow> bool" where
  "names_healthy c g = list_ex (\<lambda>b. healthy b \<and> name b = c) (BACKENDS g)"

section \<open>Health checks\<close>

text \<open>
  What one probe of \<^verbatim>\<open>check_backend\<close> observes: a response with its status, or an
  exception (connection failure, timeout).
\<close>

datatype probe = ProbeStatus int | ProbeRaised

definition upd_backend :: "nat \<Rightarrow> (backend \<Rightarrow> backend) \<Rightarrow> globals \<Rightarrow> globals" where
  "upd_backend i f g = g\<lparr>BACKENDS := (BACKENDS g)[i := f (BACKENDS g ! i)]\<rparr>"

definition check_backend :: "nat \<Rightarrow> probe \<Rightarrow> globals \<Rightarrow> globals" where
  "check_backend i p g =
     (case p of
        ProbeStatus st \<Rightarrow> upd_backend i (\<lambda>b. b\<lparr>healthy := (st = 200)\<rparr>) g
      | ProbeRaised \<Rightarrow> upd_backend i (\<lambda>b. b\<lparr>healthy := False\<rparr>) g)"

section \<open>The proxy handler\<close>

text \<open>
  \<^verbatim>\<open>proxy\<close> is a coroutine. It runs without interruption from its first line to the
  first \<^verbatim>\<open>await\<close> (line 82), and the three awaits of lines 82 to 87 touch no global.
  The handler is therefore two atomic steps: \<open>proxy_dispatch\<close> is lines 62 to 82 and
  yields either a response at once or the request to send upstream together with the
  locals the coroutine keeps; \<open>proxy_complete\<close> is lines 88 to 104, run with what the
  awaits produced.
\<close>

record task =
  task_backend :: nat
  cookie_choice :: "string option"

datatype dispatch = Respond response | Forward task upstream_request

text \<open>The headers of the upstream request of a dispatch step, none when it answered at once.\<close>

definition sent_headers :: "dispatch \<Rightarrow> (string \<times> string) list" where
  "sent_headers d = (case d of Forward t up \<Rightarrow> up_headers up | Respond r \<Rightarrow> [])"

text \<open>
  What the awaits of the \<^verbatim>\<open>try\<close> block produce: the upstream response, read in full,
  with the measured \<^verbatim>\<open>duration_ms\<close>; an \<^verbatim>\<open>Exception\<close> (timeout, connection failure, a
  failed read); or the cancellation of the coroutine, which is not an \<^verbatim>\<open>Exception\<close>
  and passes the \<^verbatim>\<open>except\<close> clause. Building the response from a complete upstream
  response (lines 88 to 99) is taken not to raise.
\<close>

datatype outcome = Completed upstream_response int | Raised | Cancelled

definition no_healthy_backends :: response where
  "no_healthy_backends = json_response (JObj [(''error'', JStr ''no healthy backends'')]) 503"

definition upstream_failure :: response where
  "upstream_failure = json_response (JObj [(''error'', JStr ''upstream failure'')]) 502"

text \<open>\<^verbatim>\<open>client_ip = peer[0] if peer else "unknown"\<close>.\<close>

definition client_ip_of :: "(string \<times> nat) option \<Rightarrow> string" where
  "client_ip_of peer = (case peer of Some (ip, port) \<Rightarrow> ip | None \<Rightarrow> ''unknown'')"

definition forward_headers :: "request \<Rightarrow> (string \<times> nat) option \<Rightarrow> (string \<times> string) list" where
  "forward_headers req peer =
     (let hdrs = dict_of_items (filter (\<lambda>(k, v). lower k \<notin> HOP_BY_HOP) (headers req));
          client_ip = client_ip_of peer;
          xff = dict_get hdrs ''X-Forwarded-For'';
          hdrs1 = dict_set hdrs ''X-Forwarded-For''
                    (case xff of
                       None \<Rightarrow> client_ip
                     | Some x \<Rightarrow> if x = [] then client_ip else x @ '', '' @ client_ip)
      in dict_set hdrs1 ''X-Forwarded-Proto'' (scheme req))"

definition proxy_dispatch :: "config \<Rightarrow> request \<Rightarrow> globals \<Rightarrow> dispatch \<times> globals" where
  "proxy_dispatch cfg req g =
     (let choice = (if sticky_on cfg then cookies req (the (STICKY_COOKIE cfg)) else None);
          (backend, g1) = (if sticky_on cfg then pick_backend_sticky choice g
                           else pick_backend_rr g)
      in case backend of
           None \<Rightarrow> (Respond no_healthy_backends, g1)
         | Some i \<Rightarrow>
             let g2 = upd_backend i (\<lambda>b. b\<lparr>active := active b + 1\<rparr>) g1 in
             (case transport req of
                NoTransport \<Rightarrow>
                  (Respond upstream_failure,
                   upd_backend i (\<lambda>b. b\<lparr>active := active b - 1\<rparr>)
                     (upd_backend i (\<lambda>b. b\<lparr>fail := fail b + 1\<rparr>) g2))
              | Transport peer \<Rightarrow>
                  (Forward \<lparr>task_backend = i, cookie_choice = choice\<rparr>
                     \<lparr>up_method = http_method req,
                      up_url = url (BACKENDS g2 ! i) @ path_qs req,
                      up_headers = forward_headers req peer,
                      up_data = content req\<rparr>,
                   g2)))"

definition relay :: "config \<Rightarrow> task \<Rightarrow> backend \<Rightarrow> upstream_response \<Rightarrow> int \<Rightarrow> response" where
  "relay cfg t b resp duration_ms =
     (let hs = filter (\<lambda>(k, v). lower k \<notin> HOP_BY_HOP) (resp_headers resp);
          cs = (if sticky_on cfg \<and> cookie_choice t \<noteq> Some (name b)
                then [\<lparr>c_name = the (STICKY_COOKIE cfg), c_value = name b,
                       c_max_age = STICKY_TTL_SECONDS cfg, c_path = ''/'',
                       c_httponly = False\<rparr>]
                else [])
      in \<lparr>status = resp_status resp,
          out_headers = ci_set (ci_set hs ''X-LB-Backend'' (name b))
                          ''X-LB-Duration-ms'' (str_int duration_ms),
          out_body = RawBody (payload resp),
          out_cookies = cs\<rparr>)"

definition proxy_complete :: "config \<Rightarrow> task \<Rightarrow> outcome \<Rightarrow> globals \<Rightarrow> response option \<times> globals" where
  "proxy_complete cfg t out g =
     (let i = task_backend t;
          release = upd_backend i (\<lambda>b. b\<lparr>active := active b - 1\<rparr>)
      in case out of
           Completed resp duration_ms \<Rightarrow>
             let g1 = upd_backend i (\<lambda>b. b\<lparr>ok := ok b + 1\<rparr>) g in
             (Some (relay cfg t (BACKENDS g1 ! i) resp duration_ms), release g1)
         | Raised \<Rightarrow>
             (Some upstream_failure, release (upd_backend i (\<lambda>b. b\<lparr>fail := fail b + 1\<rparr>) g))
         | Cancelled \<Rightarrow> (None, release g))"

section \<open>Auxiliary endpoints\<close>

definition snapshot :: "backend \<Rightarrow> json" where
  "snapshot b =
     JObj [(''name'', JStr (name b)), (''url'', JStr (url b)), (''healthy'', JBool (healthy b)),
           (''weight'', JInt (weight b)), (''active'', JInt (active b)), (''ok'', JInt (ok b)),
           (''fail'', JInt (fail b))]"

definition metrics :: "globals \<Rightarrow> response" where
  "metrics g = json_response (JObj [(''backends'', JArr (map snapshot (BACKENDS g)))]) 200"

definition health :: "globals \<Rightarrow> response" where
  "health g =
     json_response
       (JObj [(''status'', JStr (if list_ex healthy (BACKENDS g) then ''ok'' else ''degraded''))])
       200"

section \<open>The event loop\<close>

text \<open>
  One process, cooperative tasks: between two awaits a task runs alone. The state of
  the process is the globals and the handler coroutines suspended in their \<^verbatim>\<open>try\<close>
  block. An event is what the loop runs next: the start of a handler for a new request,
  the resumption of a suspended handler with the outcome of its awaits, the end of one
  health probe, or a request to an auxiliary endpoint.
\<close>

record system =
  glob :: globals
  tasks :: "task list"

datatype event =
  Arrive request | Resume nat outcome | Probe nat probe | GetMetrics | GetHealth

datatype effect = Reply response | Send upstream_request | Dropped | Quiet

definition step :: "config \<Rightarrow> event \<Rightarrow> system \<Rightarrow> effect \<times> system" where
  "step cfg ev s =
     (case ev of
        Arrive req \<Rightarrow>
          (case proxy_dispatch cfg req (glob s) of
             (Respond r, g) \<Rightarrow> (Reply r, s\<lparr>glob := g\<rparr>)
           | (Forward t up, g) \<Rightarrow> (Send up, s\<lparr>glob := g, tasks := tasks s @ [t]\<rparr>))
      | Resume k out \<Rightarrow>
          if k < length (tasks s) then
            (case proxy_complete cfg (tasks s ! k) out (glob s) of
               (r, g) \<Rightarrow>
                 ((case r of Some resp \<Rightarrow> Reply resp | None \<Rightarrow> Dropped),
                  s\<lparr>glob := g, tasks := take k (tasks s) @ drop (Suc k) (tasks s)\<rparr>))
          else (Quiet, s)
      | Probe i p \<Rightarrow>
          if i < length (BACKENDS (glob s)) then (Quiet, s\<lparr>glob := check_backend i p (glob s)\<rparr>)
          else (Quiet, s)
      | GetMetrics \<Rightarrow> (Reply (metrics (glob s)), s)
      | GetHealth \<Rightarrow> (Reply (health (glob s)), s))"

fun run :: "config \<Rightarrow> event list \<Rightarrow> system \<Rightarrow> system" where
  "run cfg [] s = s"
| "run cfg (ev # evs) s = run cfg evs (snd (step cfg ev s))"

text \<open>The process at start: no handler is running and no backend has a request in flight.\<close>

definition started :: "system \<Rightarrow> bool" where
  "started s = (tasks s = [] \<and> list_all (\<lambda>b. active b = 0) (BACKENDS (glob s)))"

definition in_flight :: "nat \<Rightarrow> system \<Rightarrow> nat" where
  "in_flight i s = length (filter (\<lambda>t. task_backend t = i) (tasks s))"

text \<open>
  The invariant of the event loop: every suspended handler holds a backend of the list,
  and the active count of each backend is the number of suspended handlers holding it.
\<close>

definition balanced :: "system \<Rightarrow> bool" where
  "balanced s =
     ((\<forall>t \<in> set (tasks s). task_backend t < length (BACKENDS (glob s))) \<and>
      (\<forall>i < length (BACKENDS (glob s)).
         active (BACKENDS (glob s) ! i) = int (in_flight i s)))"

section \<open>Sample inputs\<close>

text \<open>The globals of the source after one round of failed probes.\<close>

definition all_down :: globals where
  "all_down = check_backend 1 ProbeRaised (check_backend 0 (ProbeStatus 503) source_globals)"

text \<open>A request without cookies from a peer with a known address.\<close>

definition plain_request :: request where
  "plain_request =
     \<lparr>cookies = Map.empty,
      headers = [(''Host'', ''127.0.0.1:8000''), (''Accept'', ''*/*''), (''Connection'', ''keep-alive'')],
      transport = Transport (Some (''10.0.0.7'', 51234)),
      scheme = ''http'', http_method = ''GET'', path_qs = ''/'', content = []\<rparr>"

section \<open>Round-robin selection\<close>

lemma div_super: "0 < (h::int) \<Longrightarrow> y div h + n div h \<le> (y + n) div h"
proof -
  assume h: "0 < h"
  have "0 \<le> (y mod h + n mod h) div h"
    using h by (simp add: pos_imp_zdiv_nonneg_iff)
  then show ?thesis by (simp add: div_add1_eq [of y n h])
qed

lemma div_step: "0 < (h::int) \<Longrightarrow> x div h - (x - 1) div h = (if x mod h = 0 then 1 else 0)"
proof (cases "x mod h = 0")
  assume h: "0 < h"
  case True
  have "x - 1 = h * (x div h - 1) + (h - 1)"
    using True mult_div_mod_eq [of h x] by (simp add: algebra_simps)
  then have "(x - 1) div h = x div h - 1"
    using h int_div_pos_eq [of "x - 1" h "x div h - 1" "h - 1"] by simp
  with True show ?thesis by simp
next
  assume h: "0 < h"
  case False
  have "0 \<le> x mod h" using h by simp
  with False have r: "0 < x mod h" by linarith
  have r': "x mod h < h" using h by simp
  have "x - 1 = h * (x div h) + (x mod h - 1)"
    using mult_div_mod_eq [of h x] by (simp add: algebra_simps)
  then have "(x - 1) div h = x div h"
    using h r r' int_div_pos_eq [of "x - 1" h "x div h" "x mod h - 1"] by simp
  with False show ?thesis by simp
qed

lemma res_iff: "0 < (h::int) \<Longrightarrow> 0 \<le> k \<Longrightarrow> k < h \<Longrightarrow> ((m - k) mod h = 0) = (m mod h = k)"
  by (metis (no_types, lifting) add.commute add_diff_eq diff_0_right
    diff_add_cancel mod_0 mod_diff_right_eq mod_pos_pos_trivial)

text \<open>
  Among the cursor values \<open>c, c + 1, \<dots>, c + n - 1\<close>, the number of those with residue
  \<open>k\<close> modulo \<open>h\<close>, in closed form.
\<close>

lemma residue_count:
  assumes h: "0 < h" and k: "k < h"
  shows "int (count_list (map (\<lambda>j. nat ((c + int j) mod int h)) [0..<n]) k) =
         (c + int n - 1 - int k) div int h - (c - 1 - int k) div int h"
proof (induction n)
  case 0
  show ?case by simp
next
  case (Suc n)
  have a: "(nat ((c + int n) mod int h) = k) = ((c + int n - int k) mod int h = 0)"
  proof -
    have "0 \<le> (c + int n) mod int h" using h by simp
    then have "(nat ((c + int n) mod int h) = k) = ((c + int n) mod int h = int k)"
      by linarith
    also have "\<dots> = ((c + int n - int k) mod int h = 0)"
      using h k res_iff [of "int h" "int k" "c + int n"] by simp
    finally show ?thesis .
  qed
  have b: "(c + int n - int k) div int h - (c + int n - int k - 1) div int h =
           (if (c + int n - int k) mod int h = 0 then 1 else 0)"
    using h div_step [of "int h" "c + int n - int k"] by simp
  have e: "c + int (Suc n) - 1 - int k = c + int n - int k" by simp
  have e': "c + int n - 1 - int k = c + int n - int k - 1" by simp
  show ?case
  proof (cases "(c + int n - int k) mod int h = 0")
    case True
    with a b Suc.IH show ?thesis unfolding e by (simp add: e')
  next
    case False
    with a b Suc.IH show ?thesis unfolding e by (simp add: e')
  qed
qed

lemma residue_count_ge:
  assumes h: "0 < h" and k: "k < h"
  shows "n div h \<le> count_list (map (\<lambda>j. nat ((c + int j) mod int h)) [0..<n]) k"
proof -
  have "int n div int h + (c - 1 - int k) div int h \<le> (c - 1 - int k + int n) div int h"
    using h div_super [of "int h" "c - 1 - int k" "int n"] by (simp add: add.commute)
  moreover have "c - 1 - int k + int n = c + int n - 1 - int k" by simp
  ultimately have "int (n div h) \<le>
      int (count_list (map (\<lambda>j. nat ((c + int j) mod int h)) [0..<n]) k)"
    using residue_count [OF h k, of c n] by (simp add: zdiv_int)
  then show ?thesis by linarith
qed

lemma rr_calls_eq:
  "healthy_refs (BACKENDS g) \<noteq> [] \<Longrightarrow>
   rr_calls n g =
     (map (\<lambda>j. Some (healthy_refs (BACKENDS g) !
                  nat ((ROUND_ROBIN_INDEX g + int j) mod int (length (healthy_refs (BACKENDS g))))))
          [0..<n],
      g\<lparr>ROUND_ROBIN_INDEX := ROUND_ROBIN_INDEX g + int n\<rparr>)"
proof (induction n arbitrary: g)
  case 0
  then show ?case by simp
next
  case (Suc n)
  let ?g1 = "g\<lparr>ROUND_ROBIN_INDEX := ROUND_ROBIN_INDEX g + 1\<rparr>"
  have p: "pick_backend_rr g =
     (Some (healthy_refs (BACKENDS g) !
         nat (ROUND_ROBIN_INDEX g mod int (length (healthy_refs (BACKENDS g))))), ?g1)"
    using Suc.prems by (simp add: pick_backend_rr_def Let_def)
  have h1: "healthy_refs (BACKENDS ?g1) \<noteq> []" using Suc.prems by simp
  show ?case
    using Suc.IH [OF h1] p
    by (simp add: upt_conv_Cons map_Suc_upt [symmetric] add.assoc del: upt_Suc)
qed

lemma healthy_refs_mem:
  "(i \<in> set (healthy_refs bs)) = (i < length bs \<and> healthy (bs ! i))"
  by (auto simp: healthy_refs_def)

text \<open>
  Claim C3. When at least one backend is healthy and nothing else runs in between (so
  the healthy subset stays fixed), \<open>N\<close> consecutive calls of \<^verbatim>\<open>pick_backend_rr\<close>
  return, at call \<open>j\<close>, the entry of the healthy list at position
  \<open>(cursor + j) mod healthyCount\<close>; the cursor ends \<open>N\<close> higher and no backend is
  changed; every pick is a healthy backend; and every healthy backend is picked at
  least \<open>N div healthyCount\<close> times.
\<close>

theorem rr_fair:
  assumes ne: "healthy_refs (BACKENDS g) \<noteq> []"
  shows "fst (rr_calls N g) =
           map (\<lambda>j. Some (healthy_refs (BACKENDS g) !
                     nat ((ROUND_ROBIN_INDEX g + int j) mod
                          int (length (healthy_refs (BACKENDS g))))))
               [0..<N]
       \<and> ROUND_ROBIN_INDEX (snd (rr_calls N g)) = ROUND_ROBIN_INDEX g + int N
       \<and> BACKENDS (snd (rr_calls N g)) = BACKENDS g
       \<and> (\<forall>p \<in> set (fst (rr_calls N g)).
            \<exists>b. p = Some b \<and> b < length (BACKENDS g) \<and> healthy (BACKENDS g ! b))
       \<and> (\<forall>b \<in> set (healthy_refs (BACKENDS g)).
            N div length (healthy_refs (BACKENDS g)) \<le> count_list (fst (rr_calls N g)) (Some b))"
proof -
  let ?hs = "healthy_refs (BACKENDS g)"
  let ?h = "length ?hs"
  let ?r = "\<lambda>j. nat ((ROUND_ROBIN_INDEX g + int j) mod int ?h)"
  have h: "0 < ?h" using ne by simp
  have eq: "rr_calls N g =
      (map (\<lambda>j. Some (?hs ! ?r j)) [0..<N], g\<lparr>ROUND_ROBIN_INDEX := ROUND_ROBIN_INDEX g + int N\<rparr>)"
    by (rule rr_calls_eq [OF ne])
  have r: "?r j < ?h" for j
    using h by (simp add: nat_less_iff)
  have mem: "\<exists>b. p = Some b \<and> b < length (BACKENDS g) \<and> healthy (BACKENDS g ! b)"
    if "p \<in> set (fst (rr_calls N g))" for p
  proof -
    from that eq obtain j where "p = Some (?hs ! ?r j)" by auto
    moreover have "?hs ! ?r j \<in> set ?hs" using r by simp
    ultimately show ?thesis by (simp add: healthy_refs_mem)
  qed
  have cnt: "N div ?h \<le> count_list (fst (rr_calls N g)) (Some b)" if "b \<in> set ?hs" for b
  proof -
    from that obtain k where k: "k < ?h" "?hs ! k = b" by (auto simp: in_set_conv_nth)
    have "N div ?h \<le> count_list (map ?r [0..<N]) k"
      by (rule residue_count_ge [OF h k(1)])
    also have "\<dots> \<le> count_list (map (\<lambda>i. Some (?hs ! i)) (map ?r [0..<N])) (Some (?hs ! k))"
      by (rule count_list_map_ge)
    finally show ?thesis using eq k(2) by (simp add: comp_def)
  qed
  show ?thesis using eq mem cnt by simp
qed

text \<open>The configuration of the source, five calls: s1, s2, s1, s2, s1.\<close>

theorem rr_fair_witness:
  "healthy_refs (BACKENDS source_globals) = [0, 1]
   \<and> fst (rr_calls 5 source_globals) = [Some 0, Some 1, Some 0, Some 1, Some 0]
   \<and> ROUND_ROBIN_INDEX (snd (rr_calls 5 source_globals)) = 5
   \<and> (2::nat) \<le> count_list (fst (rr_calls 5 source_globals)) (Some 0)
   \<and> (2::nat) \<le> count_list (fst (rr_calls 5 source_globals)) (Some 1)"
proof -
  have hs: "healthy_refs (BACKENDS source_globals) = [0, 1]"
    by (simp add: healthy_refs_def source_globals_def)
  have ri: "ROUND_ROBIN_INDEX source_globals = 0" by (simp add: source_globals_def)
  have up: "[0..<5] = [0, 1, 2, 3, 4]" by (simp add: upt_rec_numeral upt_conv_Cons)
  show ?thesis using rr_fair [of source_globals 5] by (simp add: hs ri up)
qed

section \<open>Sticky selection\<close>

lemma find_unique:
  "x \<in> set xs \<Longrightarrow> P x \<Longrightarrow> \<forall>y \<in> set xs. P y \<longrightarrow> y = x \<Longrightarrow> find P xs = Some x"
proof (induction xs)
  case Nil
  then show ?case by simp
next
  case (Cons a xs)
  show ?case
  proof (cases "P a")
    case True
    with Cons.prems(3) have "a = x" by simp
    with True show ?thesis by simp
  next
    case False
    with Cons.prems(1,2) have "x \<in> set xs" by auto
    moreover have "\<forall>y \<in> set xs. P y \<longrightarrow> y = x" using Cons.prems(3) by simp
    ultimately have "find P xs = Some x" using Cons.IH Cons.prems(2) by blast
    with False show ?thesis by simp
  qed
qed

lemma healthy_refs_upd_rr [simp]:
  "healthy_refs (BACKENDS (g\<lparr>ROUND_ROBIN_INDEX := k\<rparr>)) = healthy_refs (BACKENDS g)"
  by simp

lemma pick_rr_cases:
  "pick_backend_rr g = (None, g) \<and> healthy_refs (BACKENDS g) = [] \<or>
   (\<exists>i. pick_backend_rr g = (Some i, g\<lparr>ROUND_ROBIN_INDEX := ROUND_ROBIN_INDEX g + 1\<rparr>)
        \<and> i \<in> set (healthy_refs (BACKENDS g)))"
proof (cases "healthy_refs (BACKENDS g) = []")
  case True
  then show ?thesis by (simp add: pick_backend_rr_def)
next
  case False
  let ?hs = "healthy_refs (BACKENDS g)"
  have "nat (ROUND_ROBIN_INDEX g mod int (length ?hs)) < length ?hs"
    using False by (simp add: nat_less_iff)
  then have "?hs ! nat (ROUND_ROBIN_INDEX g mod int (length ?hs)) \<in> set ?hs"
    by simp
  with False show ?thesis by (simp add: pick_backend_rr_def Let_def)
qed

lemma sticky_hit_once:
  assumes c: "c \<noteq> []" and i: "i < length (BACKENDS g)" and h: "healthy (BACKENDS g ! i)"
    and n: "name (BACKENDS g ! i) = c" and d: "distinct (map name (BACKENDS g))"
  shows "pick_backend_sticky (Some c) g = (Some i, g)"
proof -
  let ?hs = "healthy_refs (BACKENDS g)"
  have mem: "i \<in> set ?hs" using i h by (simp add: healthy_refs_mem)
  have uniq: "y = i" if "y \<in> set ?hs" "name (BACKENDS g ! y) = c" for y
  proof -
    from that have "y < length (BACKENDS g)" by (simp add: healthy_refs_mem)
    with that(2) n i d show ?thesis
      using nth_eq_iff_index_eq [of "map name (BACKENDS g)" y i] by simp
  qed
  have "find (\<lambda>j. name (BACKENDS g ! j) = c) ?hs = Some i"
  proof (rule find_unique [OF mem])
    show "name (BACKENDS g ! i) = c" by (rule n)
    show "\<forall>y \<in> set ?hs. name (BACKENDS g ! y) = c \<longrightarrow> y = i" using uniq by blast
  qed
  moreover have "?hs \<noteq> []" using mem by auto
  ultimately show ?thesis using c by (simp add: pick_backend_sticky_def Let_def)
qed

lemma sticky_calls_hit:
  "pick_backend_sticky cv g = (Some i, g) \<Longrightarrow> sticky_calls n cv g = (replicate n (Some i), g)"
proof (induction n)
  case 0
  show ?case by simp
next
  case (Suc n)
  then show ?case by simp
qed

lemma sg_backends:
  "BACKENDS source_globals =
        [\<lparr>name = ''s1'', url = ''http://127.0.0.1:8001'', healthy = True, weight = 1,
          active = 0, ok = 0, fail = 0\<rparr>,
         \<lparr>name = ''s2'', url = ''http://127.0.0.1:8002'', healthy = True, weight = 1,
          active = 0, ok = 0, fail = 0\<rparr>]"
  by (simp add: source_globals_def)

text \<open>
  Claim C4. A non-empty cookie value that is the name of a healthy backend \<open>i\<close> makes
  \<^verbatim>\<open>pick_backend_sticky\<close> return \<open>i\<close>, whatever the cursor \<open>k\<close> is, and any number of
  consecutive selections with that value all return \<open>i\<close>. Names are unique identifiers
  of backends. The hypotheses read only the names and the health flags, which the
  proxy handler never writes, so they hold again at each following request.
\<close>

theorem sticky_affinity:
  assumes "c \<noteq> []" and "i < length (BACKENDS g)" and "healthy (BACKENDS g ! i)"
    and "name (BACKENDS g ! i) = c" and "distinct (map name (BACKENDS g))"
  shows "pick_backend_sticky (Some c) (g\<lparr>ROUND_ROBIN_INDEX := k\<rparr>) =
           (Some i, g\<lparr>ROUND_ROBIN_INDEX := k\<rparr>)
       \<and> sticky_calls n (Some c) (g\<lparr>ROUND_ROBIN_INDEX := k\<rparr>) =
           (replicate n (Some i), g\<lparr>ROUND_ROBIN_INDEX := k\<rparr>)"
proof -
  have one: "pick_backend_sticky (Some c) (g\<lparr>ROUND_ROBIN_INDEX := k\<rparr>) =
           (Some i, g\<lparr>ROUND_ROBIN_INDEX := k\<rparr>)"
    using assms by (intro sticky_hit_once) simp_all
  show ?thesis using one sticky_calls_hit [OF one, of n] by simp
qed

text \<open>
  The configuration of the source with the cursor at 7: the cookie value s2 gives the
  second backend, 100 times in a row, where round robin would next give the first.
\<close>

theorem sticky_affinity_witness:
  "pick_backend_sticky (Some ''s2'') (source_globals\<lparr>ROUND_ROBIN_INDEX := 7\<rparr>) =
     (Some 1, source_globals\<lparr>ROUND_ROBIN_INDEX := 7\<rparr>)
   \<and> fst (sticky_calls 100 (Some ''s2'') (source_globals\<lparr>ROUND_ROBIN_INDEX := 7\<rparr>)) =
     replicate 100 (Some 1)
   \<and> fst (pick_backend_rr (source_globals\<lparr>ROUND_ROBIN_INDEX := 8\<rparr>)) = Some 0"
proof -
  have rr: "fst (pick_backend_rr (source_globals\<lparr>ROUND_ROBIN_INDEX := 8\<rparr>)) = Some 0"
    by (simp add: pick_backend_rr_def healthy_refs_def sg_backends Let_def)
  show ?thesis
    using sticky_affinity [of "''s2''" 1 source_globals 7 100] rr
    by (simp add: sg_backends)
qed

text \<open>
  Claim C10. A sticky selection never changes a backend. It leaves the cursor as it
  is, or it is the round-robin fallback, which advances the cursor by one. When the
  cookie value is non-empty and names a healthy backend, the globals are left exactly
  as they were.
\<close>

theorem sticky_frame:
  "BACKENDS (snd (pick_backend_sticky cv g)) = BACKENDS g
   \<and> (ROUND_ROBIN_INDEX (snd (pick_backend_sticky cv g)) = ROUND_ROBIN_INDEX g
      \<or> pick_backend_sticky cv g = pick_backend_rr g
        \<and> ROUND_ROBIN_INDEX (snd (pick_backend_sticky cv g)) = ROUND_ROBIN_INDEX g + 1)
   \<and> (c \<noteq> [] \<and> names_healthy c g \<longrightarrow> snd (pick_backend_sticky (Some c) g) = g)"
proof -
  have rr: "BACKENDS (snd (pick_backend_rr g)) = BACKENDS g"
      "ROUND_ROBIN_INDEX (snd (pick_backend_rr g)) = ROUND_ROBIN_INDEX g
       \<or> ROUND_ROBIN_INDEX (snd (pick_backend_rr g)) = ROUND_ROBIN_INDEX g + 1"
    using pick_rr_cases [of g] by auto
  have a: "BACKENDS (snd (pick_backend_sticky cv g)) = BACKENDS g"
    using rr(1) by (simp add: pick_backend_sticky_def Let_def split: option.split)
  have b: "ROUND_ROBIN_INDEX (snd (pick_backend_sticky cv g)) = ROUND_ROBIN_INDEX g
      \<or> pick_backend_sticky cv g = pick_backend_rr g
        \<and> ROUND_ROBIN_INDEX (snd (pick_backend_sticky cv g)) = ROUND_ROBIN_INDEX g + 1"
    using rr(2) by (auto simp: pick_backend_sticky_def Let_def split: option.split)
  have c: "snd (pick_backend_sticky (Some c) g) = g" if "c \<noteq> []" "names_healthy c g"
  proof -
    let ?hs = "healthy_refs (BACKENDS g)"
    from that(2) obtain b where "b \<in> set (BACKENDS g)" "healthy b" "name b = c"
      by (auto simp: names_healthy_def list_ex_iff)
    then obtain i where "i < length (BACKENDS g)" "healthy (BACKENDS g ! i)"
        "name (BACKENDS g ! i) = c"
      by (auto simp: in_set_conv_nth)
    then have "i \<in> set ?hs" "name (BACKENDS g ! i) = c" by (simp_all add: healthy_refs_mem)
    then have "find (\<lambda>j. name (BACKENDS g ! j) = c) ?hs \<noteq> None" "?hs \<noteq> []"
      by (auto simp: find_None_iff)
    with that(1) show ?thesis
      by (auto simp: pick_backend_sticky_def Let_def)
  qed
  from a b c show ?thesis by blast
qed

text \<open>
  The configuration of the source: the value s1 leaves the globals unchanged; without
  a cookie the fallback advances the cursor.
\<close>

theorem sticky_frame_witness:
  "names_healthy ''s1'' source_globals
   \<and> snd (pick_backend_sticky (Some ''s1'') source_globals) = source_globals
   \<and> ROUND_ROBIN_INDEX (snd (pick_backend_sticky None source_globals)) = 1"
proof -
  have nh: "names_healthy ''s1'' source_globals"
    by (simp add: names_healthy_def sg_backends)
  have fb: "ROUND_ROBIN_INDEX (snd (pick_backend_sticky None source_globals)) = 1"
    by (simp add: pick_backend_sticky_def pick_backend_rr_def healthy_refs_def sg_backends
        Let_def source_globals_def)
  show ?thesis
    using sticky_frame [of "Some ''s1''" source_globals "''s1''"] nh fb by simp
qed

section \<open>The proxy handler: selection failure, outcomes, cookie\<close>

lemma healthy_refs_Nil: "(healthy_refs bs = []) = (\<not> list_ex healthy bs)"
  by (auto simp: healthy_refs_def filter_empty_conv list_ex_length)

lemma pick_rr_none: "healthy_refs (BACKENDS g) = [] \<Longrightarrow> pick_backend_rr g = (None, g)"
  by (simp add: pick_backend_rr_def)

lemma pick_sticky_none: "healthy_refs (BACKENDS g) = [] \<Longrightarrow> pick_backend_sticky cv g = (None, g)"
  by (simp add: pick_backend_sticky_def)

lemma upd_backend_simps [simp]:
  "BACKENDS (upd_backend i f g) = (BACKENDS g)[i := f (BACKENDS g ! i)]"
  "ROUND_ROBIN_INDEX (upd_backend i f g) = ROUND_ROBIN_INDEX g"
  by (simp_all add: upd_backend_def)

lemma dispatch_Forward:
  assumes "proxy_dispatch cfg req g = (Forward t up, g1)"
  shows "\<exists>peer g0. transport req = Transport peer
          \<and> (if sticky_on cfg
              then pick_backend_sticky (cookies req (the (STICKY_COOKIE cfg))) g
              else pick_backend_rr g) = (Some (task_backend t), g0)
          \<and> cookie_choice t = (if sticky_on cfg then cookies req (the (STICKY_COOKIE cfg)) else None)
          \<and> g1 = upd_backend (task_backend t) (\<lambda>b. b\<lparr>active := active b + 1\<rparr>) g0
          \<and> up_headers up = forward_headers req peer"
proof -
  obtain b g0 where sel: "(if sticky_on cfg
              then pick_backend_sticky (cookies req (the (STICKY_COOKIE cfg))) g
              else pick_backend_rr g) = (b, g0)"
    by (cases "if sticky_on cfg
              then pick_backend_sticky (cookies req (the (STICKY_COOKIE cfg))) g
              else pick_backend_rr g") 
  show ?thesis
  proof (cases b)
    case None
    with sel assms show ?thesis
      by (simp add: proxy_dispatch_def Let_def split: if_splits)
  next
    case (Some i)
    show ?thesis
    proof (cases "transport req")
      case NoTransport
      with sel Some assms show ?thesis
        by (simp add: proxy_dispatch_def Let_def split: if_splits)
    next
      case (Transport peer)
      with sel Some assms show ?thesis
        by (auto simp add: proxy_dispatch_def Let_def split: if_splits)
    qed
  qed
qed

lemma complete_rr:
  "ROUND_ROBIN_INDEX (snd (proxy_complete cfg t out g)) = ROUND_ROBIN_INDEX g"
  by (cases out) (simp_all add: proxy_complete_def Let_def)

lemma complete_length:
  "length (BACKENDS (snd (proxy_complete cfg t out g))) = length (BACKENDS g)"
  by (cases out) (simp_all add: proxy_complete_def Let_def)

lemma complete_other:
  "j \<noteq> task_backend t \<Longrightarrow> BACKENDS (snd (proxy_complete cfg t out g)) ! j = BACKENDS g ! j"
  by (cases out) (simp_all add: proxy_complete_def Let_def)

lemma complete_Completed:
  assumes "task_backend t < length (BACKENDS g)"
  shows "BACKENDS (snd (proxy_complete cfg t (Completed resp ms) g)) ! task_backend t =
           (BACKENDS g ! task_backend t)
             \<lparr>active := active (BACKENDS g ! task_backend t) - 1,
              ok := ok (BACKENDS g ! task_backend t) + 1\<rparr>"
    and "fst (proxy_complete cfg t (Completed resp ms) g) =
           Some (relay cfg t ((BACKENDS g ! task_backend t)\<lparr>ok := ok (BACKENDS g ! task_backend t) + 1\<rparr>)
                   resp ms)"
  using assms by (simp_all add: proxy_complete_def Let_def)

lemma complete_Raised:
  assumes "task_backend t < length (BACKENDS g)"
  shows "BACKENDS (snd (proxy_complete cfg t Raised g)) ! task_backend t =
           (BACKENDS g ! task_backend t)
             \<lparr>active := active (BACKENDS g ! task_backend t) - 1,
              fail := fail (BACKENDS g ! task_backend t) + 1\<rparr>"
    and "fst (proxy_complete cfg t Raised g) = Some upstream_failure"
  using assms by (simp_all add: proxy_complete_def Let_def)

lemma complete_Cancelled:
  assumes "task_backend t < length (BACKENDS g)"
  shows "BACKENDS (snd (proxy_complete cfg t Cancelled g)) ! task_backend t =
           (BACKENDS g ! task_backend t)\<lparr>active := active (BACKENDS g ! task_backend t) - 1\<rparr>"
    and "fst (proxy_complete cfg t Cancelled g) = None"
  using assms by (simp_all add: proxy_complete_def Let_def)

lemma sticky_miss_is_rr:
  assumes "pick_backend_sticky cv g = (Some i, g0)" and "cv \<noteq> Some (name (BACKENDS g ! i))"
  shows "pick_backend_rr g = (Some i, g0)"
proof (cases "healthy_refs (BACKENDS g) = []")
  case True
  with assms(1) show ?thesis by (simp add: pick_backend_sticky_def)
next
  case False
  show ?thesis
  proof (cases cv)
    case None
    with False assms(1) show ?thesis by (simp add: pick_backend_sticky_def)
  next
    case (Some c)
    show ?thesis
    proof (cases "find (\<lambda>i. name (BACKENDS g ! i) = c) (healthy_refs (BACKENDS g))")
      case None
      with False Some assms(1) show ?thesis
        by (simp add: pick_backend_sticky_def split: if_splits)
    next
      case (Some j)
      then have nj: "name (BACKENDS g ! j) = c" by (auto simp: find_Some_iff)
      show ?thesis
      proof (cases "c = []")
        case True
        with False \<open>cv = Some c\<close> assms(1) show ?thesis by (simp add: pick_backend_sticky_def)
      next
        case c: False
        with False \<open>cv = Some c\<close> Some assms(1) have "j = i"
          by (simp add: pick_backend_sticky_def)
        with nj \<open>cv = Some c\<close> assms(2) show ?thesis by simp
      qed
    qed
  qed
qed

lemma hop_simps:
  "lower ''Host'' \<notin> HOP_BY_HOP" "lower ''Accept'' \<notin> HOP_BY_HOP" "lower ''Connection'' \<in> HOP_BY_HOP"
  by (simp_all add: lower_def lower_char_def HOP_BY_HOP_def)

lemma all_down_eq: "BACKENDS all_down = map (\<lambda>b. b\<lparr>healthy := False\<rparr>) (BACKENDS source_globals)"
  by (simp add: all_down_def check_backend_def sg_backends)

lemma dispatch_plain:
  "proxy_dispatch source_config plain_request source_globals =
     (Forward \<lparr>task_backend = 0, cookie_choice = None\<rparr>
        \<lparr>up_method = ''GET'', up_url = ''http://127.0.0.1:8001/'',
         up_headers = [(''Host'', ''127.0.0.1:8000''), (''Accept'', ''*/*''),
                       (''X-Forwarded-For'', ''10.0.0.7''), (''X-Forwarded-Proto'', ''http'')],
         up_data = []\<rparr>,
      upd_backend 0 (\<lambda>b. b\<lparr>active := active b + 1\<rparr>) (source_globals\<lparr>ROUND_ROBIN_INDEX := 1\<rparr>))"
  by (simp add: proxy_dispatch_def source_config_def sticky_on_def plain_request_def
      pick_backend_sticky_def pick_backend_rr_def healthy_refs_def sg_backends Let_def
      forward_headers_def client_ip_of_def dict_of_items_def dict_set_def dict_get_def hop_simps
      source_globals_def)

text \<open>
  Claim C2. When no backend is healthy, the handler answers at once with status 503 and
  the body \<^verbatim>\<open>{"error": "no healthy backends"}\<close>: the dispatch step yields a response
  and no upstream request, and the globals, hence every counter of every backend and
  the cursor, are exactly as before. This holds in both selection modes.
\<close>

theorem no_healthy_backend:
  assumes "\<not> list_ex healthy (BACKENDS (glob s))"
  shows "proxy_dispatch cfg req (glob s) = (Respond no_healthy_backends, glob s)
       \<and> step cfg (Arrive req) s = (Reply no_healthy_backends, s)
       \<and> status no_healthy_backends = 503
       \<and> out_body no_healthy_backends = JsonBody (JObj [(''error'', JStr ''no healthy backends'')])"
proof -
  have e: "healthy_refs (BACKENDS (glob s)) = []" using assms by (simp add: healthy_refs_Nil)
  have d: "proxy_dispatch cfg req (glob s) = (Respond no_healthy_backends, glob s)"
    by (simp add: proxy_dispatch_def pick_rr_none [OF e] pick_sticky_none [OF e])
  have "step cfg (Arrive req) s = (Reply no_healthy_backends, s)"
    by (simp add: step_def d)
  with d show ?thesis by (simp add: no_healthy_backends_def json_response_def)
qed

text \<open>Both backends of the source marked unhealthy by failed probes.\<close>

theorem no_healthy_backend_witness:
  "\<not> list_ex healthy (BACKENDS all_down)
   \<and> step source_config (Arrive plain_request) \<lparr>glob = all_down, tasks = []\<rparr> =
       (Reply no_healthy_backends, \<lparr>glob = all_down, tasks = []\<rparr>)"
proof -
  have h: "\<not> list_ex healthy (BACKENDS all_down)" by (simp add: all_down_eq sg_backends)
  show ?thesis
    using no_healthy_backend [where s = "\<lparr>glob = all_down, tasks = []\<rparr>" and cfg = source_config
        and req = plain_request] h
    by simp
qed

text \<open>
  Claim C8. For a handler suspended on backend \<open>i\<close>: when the upstream response is
  complete, \<open>ok\<close> of \<open>i\<close> grows by one and \<open>fail\<close> stays, and the status relayed is the
  upstream status, whatever it is; when the forwarding raises, \<open>fail\<close> of \<open>i\<close> grows by
  one and \<open>ok\<close> stays, the reply is status 502 with the body
  \<^verbatim>\<open>{"error": "upstream failure"}\<close>, no other backend and not the cursor is touched,
  and the step ends the handler with that reply: nothing is sent again.
\<close>

theorem outcome_recorded:
  assumes i: "task_backend t < length (BACKENDS g)" and k: "k < length (tasks s)"
    and j: "j \<noteq> task_backend t"
  shows "ok (BACKENDS (snd (proxy_complete cfg t (Completed resp ms) g)) ! task_backend t) =
           ok (BACKENDS g ! task_backend t) + 1
       \<and> fail (BACKENDS (snd (proxy_complete cfg t (Completed resp ms) g)) ! task_backend t) =
           fail (BACKENDS g ! task_backend t)
       \<and> map_option status (fst (proxy_complete cfg t (Completed resp ms) g)) =
           Some (resp_status resp)
       \<and> fail (BACKENDS (snd (proxy_complete cfg t Raised g)) ! task_backend t) =
           fail (BACKENDS g ! task_backend t) + 1
       \<and> ok (BACKENDS (snd (proxy_complete cfg t Raised g)) ! task_backend t) =
           ok (BACKENDS g ! task_backend t)
       \<and> fst (proxy_complete cfg t Raised g) = Some upstream_failure
       \<and> status upstream_failure = 502
       \<and> out_body upstream_failure = JsonBody (JObj [(''error'', JStr ''upstream failure'')])
       \<and> BACKENDS (snd (proxy_complete cfg t Raised g)) ! j = BACKENDS g ! j
       \<and> ROUND_ROBIN_INDEX (snd (proxy_complete cfg t Raised g)) = ROUND_ROBIN_INDEX g
       \<and> fst (step cfg (Resume k Raised) s) = Reply upstream_failure
       \<and> tasks (snd (step cfg (Resume k Raised) s)) = take k (tasks s) @ drop (Suc k) (tasks s)"
proof -
  have st: "fst (step cfg (Resume k Raised) s) = Reply upstream_failure"
      "tasks (snd (step cfg (Resume k Raised) s)) = take k (tasks s) @ drop (Suc k) (tasks s)"
    using k by (simp_all add: step_def proxy_complete_def Let_def)
  have uf: "status upstream_failure = 502"
      "out_body upstream_failure = JsonBody (JObj [(''error'', JStr ''upstream failure'')])"
    by (simp_all add: upstream_failure_def json_response_def)
  have rs: "map_option status (fst (proxy_complete cfg t (Completed resp ms) g)) =
           Some (resp_status resp)"
    by (simp add: proxy_complete_def Let_def relay_def)
  show ?thesis
    using st uf rs j
    by (simp add: complete_Completed(1) [OF i] complete_Raised [OF i] complete_rr complete_other)
qed

text \<open>
  On the globals of the source: a 404 from upstream counts as ok, an exception as fail.
\<close>

theorem outcome_recorded_witness:
  "ok (BACKENDS (snd (proxy_complete source_config \<lparr>task_backend = 0, cookie_choice = None\<rparr>
         (Completed \<lparr>resp_status = 404, resp_headers = [], payload = ''not found''\<rparr> 12)
         source_globals)) ! 0) = 1
   \<and> map_option status (fst (proxy_complete source_config \<lparr>task_backend = 0, cookie_choice = None\<rparr>
         (Completed \<lparr>resp_status = 404, resp_headers = [], payload = ''not found''\<rparr> 12)
         source_globals)) = Some 404
   \<and> fail (BACKENDS (snd (proxy_complete source_config \<lparr>task_backend = 0, cookie_choice = None\<rparr>
         Raised source_globals)) ! 0) = 1
   \<and> fst (step source_config (Resume 0 Raised)
         \<lparr>glob = source_globals, tasks = [\<lparr>task_backend = 0, cookie_choice = None\<rparr>]\<rparr>) =
       Reply upstream_failure
   \<and> tasks (snd (step source_config (Resume 0 Raised)
         \<lparr>glob = source_globals, tasks = [\<lparr>task_backend = 0, cookie_choice = None\<rparr>]\<rparr>)) = []"
  using outcome_recorded [where t = "\<lparr>task_backend = 0, cookie_choice = None\<rparr>"
      and g = source_globals and k = 0 and j = 1 and cfg = source_config
      and s = "\<lparr>glob = source_globals, tasks = [\<lparr>task_backend = 0, cookie_choice = None\<rparr>]\<rparr>"
      and resp = "\<lparr>resp_status = 404, resp_headers = [], payload = ''not found''\<rparr>" and ms = 12]
  by (simp add: sg_backends)

text \<open>
  Claim C5. In sticky mode, for a request that was forwarded to backend \<open>i\<close> and whose
  upstream response completed (the globals \<open>g2\<close> at that moment may differ from those
  at dispatch; names never change): the token compared is the value of the sticky
  cookie of the request, absent or not. If it is not the name of \<open>i\<close>, then \<open>i\<close> was
  chosen by the round-robin fallback, and the response sets exactly one cookie, named
  as configured, with the name of \<open>i\<close> as value, the configured TTL as max-age and the
  path \<open>/\<close>. If it is the name of \<open>i\<close>, the response sets no cookie.
\<close>

theorem cookie_reissue:
  assumes on: "sticky_on cfg"
    and d: "proxy_dispatch cfg req g = (Forward t up, g1)"
    and nm: "name (BACKENDS g2 ! task_backend t) = name (BACKENDS g ! task_backend t)"
  shows "cookie_choice t = cookies req (the (STICKY_COOKIE cfg))
       \<and> (cookie_choice t \<noteq> Some (name (BACKENDS g ! task_backend t)) \<longrightarrow>
            pick_backend_rr g =
              (Some (task_backend t), g\<lparr>ROUND_ROBIN_INDEX := ROUND_ROBIN_INDEX g + 1\<rparr>)
            \<and> map_option out_cookies (fst (proxy_complete cfg t (Completed resp ms) g2)) =
                Some [\<lparr>c_name = the (STICKY_COOKIE cfg),
                       c_value = name (BACKENDS g ! task_backend t),
                       c_max_age = STICKY_TTL_SECONDS cfg, c_path = ''/'',
                       c_httponly = False\<rparr>])
       \<and> (cookie_choice t = Some (name (BACKENDS g ! task_backend t)) \<longrightarrow>
            map_option out_cookies (fst (proxy_complete cfg t (Completed resp ms) g2)) = Some [])"
proof -
  let ?i = "task_backend t"
  from dispatch_Forward [OF d] on obtain g0 where
    sel: "pick_backend_sticky (cookies req (the (STICKY_COOKIE cfg))) g = (Some ?i, g0)"
    and ch: "cookie_choice t = cookies req (the (STICKY_COOKIE cfg))"
    by auto
  have nm': "name ((BACKENDS g2)[?i := (BACKENDS g2 ! ?i)\<lparr>ok := ok (BACKENDS g2 ! ?i) + 1\<rparr>] ! ?i) =
             name (BACKENDS g ! ?i)"
    using nm by (cases "?i < length (BACKENDS g2)") (simp_all add: list_update_beyond not_less)
  have ck: "map_option out_cookies (fst (proxy_complete cfg t (Completed resp ms) g2)) =
      Some (if cookie_choice t \<noteq> Some (name (BACKENDS g ! ?i))
            then [\<lparr>c_name = the (STICKY_COOKIE cfg), c_value = name (BACKENDS g ! ?i),
                   c_max_age = STICKY_TTL_SECONDS cfg, c_path = ''/'', c_httponly = False\<rparr>]
            else [])"
    using on nm' by (simp add: proxy_complete_def Let_def relay_def)
  have rr: "pick_backend_rr g = (Some ?i, g\<lparr>ROUND_ROBIN_INDEX := ROUND_ROBIN_INDEX g + 1\<rparr>)"
    if "cookie_choice t \<noteq> Some (name (BACKENDS g ! ?i))"
  proof -
    from that ch have "pick_backend_rr g = (Some ?i, g0)"
      using sticky_miss_is_rr [OF sel] by simp
    then show ?thesis using pick_rr_cases [of g] by auto
  qed
  show ?thesis
  proof (cases "cookie_choice t = Some (name (BACKENDS g ! ?i))")
    case True
    with ch ck show ?thesis by simp
  next
    case False
    with ch ck rr [OF False] show ?thesis by simp
  qed
qed

text \<open>The source configuration, a request without cookie, served by s1.\<close>

theorem cookie_reissue_witness:
  "sticky_on source_config
   \<and> cookie_choice \<lparr>task_backend = 0, cookie_choice = None\<rparr> = None
   \<and> pick_backend_rr source_globals = (Some 0, source_globals\<lparr>ROUND_ROBIN_INDEX := 1\<rparr>)
   \<and> map_option out_cookies
        (fst (proxy_complete source_config \<lparr>task_backend = 0, cookie_choice = None\<rparr>
           (Completed \<lparr>resp_status = 200, resp_headers = [], payload = ''hello''\<rparr> 12)
           source_globals)) =
       Some [\<lparr>c_name = ''LB_NODE'', c_value = ''s1'', c_max_age = 600, c_path = ''/'',
              c_httponly = False\<rparr>]"
proof -
  have on: "sticky_on source_config" by (simp add: sticky_on_def source_config_def)
  show ?thesis
    using on cookie_reissue [OF on dispatch_plain, where ?g2.0 = source_globals
        and resp = "\<lparr>resp_status = 200, resp_headers = [], payload = ''hello''\<rparr>" and ms = 12]
    by (simp add: sg_backends source_config_def source_globals_def)
qed

section \<open>The metrics endpoint\<close>

text \<open>
  Claim C9, as stated: the body of \<^verbatim>\<open>/metrics\<close> is the JSON array of the snapshots.
  It is not: the handler wraps the array in an object.
\<close>

theorem metrics_not_array:
  "out_body (metrics source_globals) \<noteq> JsonBody (JArr (map snapshot (BACKENDS source_globals)))"
  by (simp add: metrics_def json_response_def)

text \<open>
  Claim C9, amended. \<^verbatim>\<open>/metrics\<close> answers with status 200 and a JSON object whose only
  key \<^verbatim>\<open>backends\<close> holds an array with one snapshot per configured backend, in order;
  each snapshot has exactly the keys name, url, healthy, weight, active, ok and fail;
  and the request leaves the state of the process unchanged.
\<close>

theorem metrics_snapshot:
  "status (metrics g) = 200
   \<and> out_body (metrics g) = JsonBody (JObj [(''backends'', JArr (map snapshot (BACKENDS g)))])
   \<and> length (map snapshot (BACKENDS g)) = length (BACKENDS g)
   \<and> obj_keys (snapshot b) = [''name'', ''url'', ''healthy'', ''weight'', ''active'', ''ok'', ''fail'']
   \<and> step cfg GetMetrics s = (Reply (metrics (glob s)), s)"
  by (simp add: metrics_def json_response_def snapshot_def step_def)

section \<open>Headers\<close>

subsection \<open>The dict of forwarded headers\<close>

lemma update_fresh: "k \<notin> fst ` set d \<Longrightarrow> AList.update k v d = d @ [(k, v)]"
  by (induction d) auto

lemma set_update_subset: "set (AList.update k v d) \<subseteq> insert (k, v) (set d)"
  by (induction d) auto

lemma update_keeps: "(k, v) \<in> set d \<Longrightarrow> k \<noteq> k' \<Longrightarrow> (k, v) \<in> set (AList.update k' v' d)"
  by (induction d) auto

lemma foldl_items_distinct:
  "distinct (map fst (d @ xs)) \<Longrightarrow> foldl (\<lambda>d (k, v). dict_set d k v) d xs = d @ xs"
proof (induction xs arbitrary: d)
  case Nil
  show ?case by simp
next
  case (Cons x xs)
  obtain k v where x: "x = (k, v)" by (cases x)
  have fresh: "k \<notin> fst ` set d" using Cons.prems x by auto
  have "distinct (map fst ((d @ [(k, v)]) @ xs))" using Cons.prems x by simp
  from Cons.IH [OF this] show ?case
    by (simp add: x dict_set_def update_fresh [OF fresh])
qed

lemma dict_of_items_distinct: "distinct (map fst xs) \<Longrightarrow> dict_of_items xs = xs"
  using foldl_items_distinct [of "[]" xs] by (simp add: dict_of_items_def)

lemma foldl_items_set:
  "set (foldl (\<lambda>d (k, v). dict_set d k v) d xs) \<subseteq> set d \<union> set xs"
proof (induction xs arbitrary: d)
  case Nil
  show ?case by simp
next
  case (Cons x xs)
  obtain k v where x: "x = (k, v)" by (cases x)
  show ?case
    using Cons.IH [of "dict_set d k v"] set_update_subset [of k v d]
    by (auto simp: x dict_set_def)
qed

lemma dict_of_items_set: "set (dict_of_items xs) \<subseteq> set xs"
  using foldl_items_set [of "[]" xs] by (simp add: dict_of_items_def)

lemma foldl_items_distinct_keys:
  "distinct (map fst d) \<Longrightarrow> distinct (map fst (foldl (\<lambda>d (k, v). dict_set d k v) d xs))"
proof (induction xs arbitrary: d)
  case Nil
  then show ?case by simp
next
  case (Cons x xs)
  obtain k v where x: "x = (k, v)" by (cases x)
  show ?case
    using Cons.IH [of "dict_set d k v"] Cons.prems
    by (simp add: x dict_set_def distinct_update)
qed

lemma foldl_items_map_of:
  "map_of (foldl (\<lambda>d (k, v). dict_set d k v) d xs) = map_of d ++ map_of (rev xs)"
proof (induction xs arbitrary: d)
  case Nil
  show ?case by simp
next
  case (Cons x xs)
  obtain k v where x: "x = (k, v)" by (cases x)
  have "map_of (foldl (\<lambda>d (k, v). dict_set d k v) d (x # xs)) =
        map_of (foldl (\<lambda>d (k, v). dict_set d k v) (dict_set d k v) xs)"
    by (simp add: x)
  also have "\<dots> = map_of (dict_set d k v) ++ map_of (rev xs)"
    by (rule Cons.IH)
  also have "map_of (dict_set d k v) = (map_of d)(k \<mapsto> v)"
    by (simp add: dict_set_def update_conv')
  also have "(map_of d)(k \<mapsto> v) ++ map_of (rev xs) = map_of d ++ map_of (rev (x # xs))"
    by (auto simp: x map_add_def fun_eq_iff split: option.split)
  finally show ?case .
qed

lemma dict_get_items: "dict_get (dict_of_items xs) k = map_of (rev xs) k"
  by (simp add: dict_get_def dict_of_items_def foldl_items_map_of)

lemma map_of_filter_key: "map_of (filter (\<lambda>p. fst p = k) xs) k = map_of xs k"
  by (induction xs) auto

lemma not_hop_forwarded:
  "lower ''X-Forwarded-For'' \<notin> HOP_BY_HOP" "lower ''X-Forwarded-Proto'' \<notin> HOP_BY_HOP"
  "lower ''X-LB-Backend'' \<notin> HOP_BY_HOP" "lower ''X-LB-Duration-ms'' \<notin> HOP_BY_HOP"
  by (simp_all add: lower_def lower_char_def HOP_BY_HOP_def)

lemma lower_lb:
  "lower ''X-LB-Backend'' = ''x-lb-backend''" "lower ''X-LB-Duration-ms'' = ''x-lb-duration-ms''"
  by (simp_all add: lower_def lower_char_def)

text \<open>The shape of the forwarded headers.\<close>

lemma forward_headers_eq:
  "forward_headers req peer =
     AList.update ''X-Forwarded-Proto'' (scheme req)
       (AList.update ''X-Forwarded-For''
          (case map_of (rev (filter (\<lambda>(k, v). lower k \<notin> HOP_BY_HOP) (headers req)))
                  ''X-Forwarded-For'' of
             None \<Rightarrow> client_ip_of peer
           | Some x \<Rightarrow> if x = [] then client_ip_of peer else x @ '', '' @ client_ip_of peer)
          (dict_of_items (filter (\<lambda>(k, v). lower k \<notin> HOP_BY_HOP) (headers req))))"
  by (simp add: forward_headers_def Let_def dict_set_def dict_get_items)

lemma forward_headers_keys:
  "fst ` set (forward_headers req peer) =
     {''X-Forwarded-Proto'', ''X-Forwarded-For''} \<union>
     fst ` set (dict_of_items (filter (\<lambda>(k, v). lower k \<notin> HOP_BY_HOP) (headers req)))"
  unfolding forward_headers_eq dom_update by blast

lemma forward_headers_no_hop:
  assumes "(k, v) \<in> set (forward_headers req peer)"
  shows "lower k \<notin> HOP_BY_HOP"
proof -
  let ?F = "filter (\<lambda>(k, v). lower k \<notin> HOP_BY_HOP) (headers req)"
  from assms have "k \<in> fst ` set (forward_headers req peer)" by force
  then consider "k = ''X-Forwarded-Proto''" | "k = ''X-Forwarded-For''"
    | "k \<in> fst ` set (dict_of_items ?F)"
    unfolding forward_headers_keys by blast
  then show ?thesis
  proof cases
    case 1
    then show ?thesis by (simp add: not_hop_forwarded(2))
  next
    case 2
    then show ?thesis by (simp add: not_hop_forwarded(1))
  next
    case 3
    then obtain w where "(k, w) \<in> set (dict_of_items ?F)" by force
    then have "(k, w) \<in> set ?F" using dict_of_items_set [of ?F] by blast
    then show ?thesis by simp
  qed
qed

lemma forward_headers_from_request:
  assumes "(k, v) \<in> set (forward_headers req peer)"
    and "k \<noteq> ''X-Forwarded-For''" and "k \<noteq> ''X-Forwarded-Proto''"
  shows "(k, v) \<in> set (headers req)"
proof -
  let ?F = "filter (\<lambda>(k, v). lower k \<notin> HOP_BY_HOP) (headers req)"
  obtain x where eq: "forward_headers req peer =
      AList.update ''X-Forwarded-Proto'' (scheme req)
        (AList.update ''X-Forwarded-For'' x (dict_of_items ?F))"
    using forward_headers_eq [of req peer] by blast
  have "set (forward_headers req peer) \<subseteq>
        insert (''X-Forwarded-Proto'', scheme req)
          (set (AList.update ''X-Forwarded-For'' x (dict_of_items ?F)))"
    unfolding eq by (rule set_update_subset)
  with assms(1,3) have "(k, v) \<in> set (AList.update ''X-Forwarded-For'' x (dict_of_items ?F))"
    by auto
  moreover have "set (AList.update ''X-Forwarded-For'' x (dict_of_items ?F)) \<subseteq>
        insert (''X-Forwarded-For'', x) (set (dict_of_items ?F))"
    by (rule set_update_subset)
  ultimately have "(k, v) \<in> set (dict_of_items ?F)" using assms(2) by auto
  then have "(k, v) \<in> set ?F" using dict_of_items_set [of ?F] by blast
  then show ?thesis by simp
qed

lemma filter_single:
  assumes "(k, v) \<in> set xs" and "length (filter (\<lambda>p. fst p = k) xs) = 1"
  shows "filter (\<lambda>p. fst p = k) xs = [(k, v)]"
proof -
  from assms(2) obtain x where x: "filter (\<lambda>p. fst p = k) xs = [x]"
    by (cases "filter (\<lambda>p. fst p = k) xs") auto
  have "(k, v) \<in> set (filter (\<lambda>p. fst p = k) xs)" using assms(1) by simp
  with x show ?thesis by simp
qed

lemma dict_of_items_once:
  assumes "(k, v) \<in> set xs" and "length (filter (\<lambda>p. fst p = k) xs) = 1"
  shows "(k, v) \<in> set (dict_of_items xs)"
proof -
  have "filter (\<lambda>p. fst p = k) (rev xs) = rev (filter (\<lambda>p. fst p = k) xs)"
    by (simp add: rev_filter)
  also have "\<dots> = [(k, v)]" by (simp add: filter_single [OF assms])
  finally have "map_of (filter (\<lambda>p. fst p = k) (rev xs)) k = Some v" by simp
  then have "map_of (rev xs) k = Some v" by (simp add: map_of_filter_key)
  then have "map_of (dict_of_items xs) k = Some v"
    using dict_get_items [of xs k] by (simp add: dict_get_def)
  then show ?thesis by (rule map_of_SomeD)
qed

lemma forward_headers_copies_once:
  assumes "(k, v) \<in> set (headers req)" and "lower k \<notin> HOP_BY_HOP"
    and "k \<noteq> ''X-Forwarded-For''" and "k \<noteq> ''X-Forwarded-Proto''"
    and "length (filter (\<lambda>p. fst p = k) (headers req)) = 1"
  shows "(k, v) \<in> set (forward_headers req peer)"
proof -
  let ?F = "filter (\<lambda>(k, v). lower k \<notin> HOP_BY_HOP) (headers req)"
  have m: "(k, v) \<in> set ?F" using assms(1,2) by simp
  have "filter (\<lambda>p. fst p = k) ?F = filter (\<lambda>p. fst p = k) (headers req)"
    using assms(2) by (auto intro: filter_cong)
  then have "length (filter (\<lambda>p. fst p = k) ?F) = 1" using assms(5) by simp
  with m have "(k, v) \<in> set (dict_of_items ?F)" by (rule dict_of_items_once)
  then show ?thesis
    using assms(3,4) by (simp add: forward_headers_eq update_keeps)
qed

lemma dict_of_items_distinct_keys: "distinct (map fst (dict_of_items xs))"
  using foldl_items_distinct_keys [of "[]" xs] by (simp add: dict_of_items_def)

lemma forward_headers_distinct: "distinct (map fst (forward_headers req peer))"
  by (simp add: forward_headers_eq distinct_update dict_of_items_distinct_keys)

lemma forward_headers_xff:
  "map_of (forward_headers req peer) ''X-Forwarded-For'' =
     Some (case map_of (rev (filter (\<lambda>(k, v). lower k \<notin> HOP_BY_HOP) (headers req)))
                  ''X-Forwarded-For'' of
             None \<Rightarrow> client_ip_of peer
           | Some x \<Rightarrow> if x = [] then client_ip_of peer else x @ '', '' @ client_ip_of peer)"
  by (simp add: forward_headers_eq update_conv')

lemma inbound_xff_absent:
  assumes "''X-Forwarded-For'' \<notin> fst ` set (headers req)"
  shows "map_of (rev (filter (\<lambda>(k, v). lower k \<notin> HOP_BY_HOP) (headers req))) ''X-Forwarded-For'' = None"
  using assms by (auto simp: map_of_eq_None_iff)

lemma inbound_xff_once:
  assumes "filter (\<lambda>(k, v). k = ''X-Forwarded-For'') (headers req) = [(''X-Forwarded-For'', x)]"
  shows "map_of (rev (filter (\<lambda>(k, v). lower k \<notin> HOP_BY_HOP) (headers req))) ''X-Forwarded-For'' =
         Some x"
proof -
  let ?F = "filter (\<lambda>(k, v). lower k \<notin> HOP_BY_HOP) (headers req)"
  have c: "(\<lambda>p. fst p = ''X-Forwarded-For'') = (\<lambda>(k, v). k = ''X-Forwarded-For'')"
    by auto
  have "filter (\<lambda>p. fst p = ''X-Forwarded-For'') (rev ?F) =
        rev (filter (\<lambda>(k, v). lower k \<notin> HOP_BY_HOP)
               (filter (\<lambda>(k, v). k = ''X-Forwarded-For'') (headers req)))"
    unfolding c by (simp add: rev_filter [symmetric] conj_commute)
  also have "\<dots> = [(''X-Forwarded-For'', x)]"
    using not_hop_forwarded(1) by (simp add: assms)
  finally have "map_of (filter (\<lambda>p. fst p = ''X-Forwarded-For'') (rev ?F)) ''X-Forwarded-For'' = Some x"
    by simp
  then show ?thesis by (simp add: map_of_filter_key)
qed

lemma dispatch_xff:
  "proxy_dispatch source_config
     (plain_request\<lparr>headers := [(''Host'', ''lb''), (''X-Forwarded-For'', ''203.0.113.9'')]\<rparr>)
     source_globals =
     (Forward \<lparr>task_backend = 0, cookie_choice = None\<rparr>
        \<lparr>up_method = ''GET'', up_url = ''http://127.0.0.1:8001/'',
         up_headers = [(''Host'', ''lb''), (''X-Forwarded-For'', ''203.0.113.9, 10.0.0.7''),
                       (''X-Forwarded-Proto'', ''http'')],
         up_data = []\<rparr>,
      upd_backend 0 (\<lambda>b. b\<lparr>active := active b + 1\<rparr>) (source_globals\<lparr>ROUND_ROBIN_INDEX := 1\<rparr>))"
  by (simp add: proxy_dispatch_def source_config_def sticky_on_def plain_request_def
      pick_backend_sticky_def pick_backend_rr_def healthy_refs_def sg_backends Let_def
      forward_headers_def client_ip_of_def dict_of_items_def dict_set_def dict_get_def hop_simps not_hop_forwarded
      source_globals_def)

lemma dispatch_repeated:
  "proxy_dispatch source_config
     (plain_request\<lparr>headers := [(''Host'', ''lb''), (''Accept'', ''text/html''), (''Accept'', ''*/*''),
                               (''User-Agent'', ''curl''), (''Connection'', ''close'')]\<rparr>)
     source_globals =
     (Forward \<lparr>task_backend = 0, cookie_choice = None\<rparr>
        \<lparr>up_method = ''GET'', up_url = ''http://127.0.0.1:8001/'',
         up_headers = [(''Host'', ''lb''), (''Accept'', ''*/*''), (''User-Agent'', ''curl''),
                       (''X-Forwarded-For'', ''10.0.0.7''), (''X-Forwarded-Proto'', ''http'')],
         up_data = []\<rparr>,
      upd_backend 0 (\<lambda>b. b\<lparr>active := active b + 1\<rparr>) (source_globals\<lparr>ROUND_ROBIN_INDEX := 1\<rparr>))"
proof -
  have nh: "lower ''Host'' \<notin> HOP_BY_HOP" "lower ''Accept'' \<notin> HOP_BY_HOP"
      "lower ''User-Agent'' \<notin> HOP_BY_HOP" "lower ''Connection'' \<in> HOP_BY_HOP"
    by (simp_all add: lower_def lower_char_def HOP_BY_HOP_def)
  show ?thesis
    by (simp add: proxy_dispatch_def source_config_def sticky_on_def plain_request_def
      pick_backend_sticky_def pick_backend_rr_def healthy_refs_def sg_backends Let_def
      forward_headers_def client_ip_of_def dict_of_items_def dict_set_def dict_get_def nh
      not_hop_forwarded source_globals_def)
qed

subsection \<open>The headers of the relayed response\<close>

lemma ci_set_mem:
  "p \<in> set (ci_set hs k v) \<Longrightarrow> p = (k, v) \<or> p \<in> set hs"
proof (induction hs)
  case Nil
  then show ?case by simp
next
  case (Cons q hs)
  show ?case
  proof (cases "lower (fst q) = lower k")
    case True
    with Cons.prems show ?thesis by auto
  next
    case False
    with Cons.prems have "p = q \<or> p \<in> set (ci_set hs k v)" by simp
    with Cons.IH show ?thesis by auto
  qed
qed

lemma ci_set_filter:
  assumes "\<And>q. Q q \<Longrightarrow> lower (fst q) \<noteq> lower k"
  shows "filter Q (ci_set hs k v) = filter Q hs"
proof (induction hs)
  case Nil
  have "\<not> Q (k, v)" using assms [of "(k, v)"] by auto
  then show ?case by simp
next
  case (Cons p hs)
  show ?case
  proof (cases "lower (fst p) = lower k")
    case True
    have nk: "\<not> Q (k, v)" using assms [of "(k, v)"] by auto
    have np: "\<not> Q p" using assms [of p] True by auto
    have "filter Q (filter (\<lambda>q. lower (fst q) \<noteq> lower k) hs) = filter Q hs"
      using assms by (auto intro: filter_cong)
    with True nk np show ?thesis by simp
  next
    case False
    with Cons.IH show ?thesis by simp
  qed
qed

lemma relay_headers:
  "out_headers (relay cfg t b resp ms) =
     ci_set (ci_set (filter (\<lambda>(k, v). lower k \<notin> HOP_BY_HOP) (resp_headers resp))
               ''X-LB-Backend'' (name b))
       ''X-LB-Duration-ms'' (str_int ms)"
  by (simp add: relay_def Let_def)

lemma relay_no_hop:
  assumes "(k, v) \<in> set (out_headers (relay cfg t b resp ms))"
  shows "lower k \<notin> HOP_BY_HOP"
proof -
  let ?hs = "filter (\<lambda>(k, v). lower k \<notin> HOP_BY_HOP) (resp_headers resp)"
  from assms have "(k, v) = (''X-LB-Duration-ms'', str_int ms)
      \<or> (k, v) \<in> set (ci_set ?hs ''X-LB-Backend'' (name b))"
    unfolding relay_headers by (rule ci_set_mem)
  then consider "k = ''X-LB-Duration-ms''" | "k = ''X-LB-Backend''" | "(k, v) \<in> set ?hs"
    using ci_set_mem [of "(k, v)" ?hs "''X-LB-Backend''" "name b"] by auto
  then show ?thesis
  proof cases
    case 1
    then show ?thesis by (simp add: not_hop_forwarded(4))
  next
    case 2
    then show ?thesis by (simp add: not_hop_forwarded(3))
  next
    case 3
    then show ?thesis by simp
  qed
qed

lemma relay_others:
  "filter (\<lambda>(k, v). lower k \<notin> {''x-lb-backend'', ''x-lb-duration-ms''})
     (out_headers (relay cfg t b resp ms)) =
   filter (\<lambda>(k, v). lower k \<notin> {''x-lb-backend'', ''x-lb-duration-ms''} \<union> HOP_BY_HOP)
     (resp_headers resp)"
proof -
  let ?Q = "\<lambda>(k, v). lower k \<notin> {''x-lb-backend'', ''x-lb-duration-ms''}"
  let ?hs = "filter (\<lambda>(k, v). lower k \<notin> HOP_BY_HOP) (resp_headers resp)"
  have 1: "filter ?Q (ci_set (ci_set ?hs ''X-LB-Backend'' (name b)) ''X-LB-Duration-ms'' (str_int ms)) =
           filter ?Q (ci_set ?hs ''X-LB-Backend'' (name b))"
    by (rule ci_set_filter) (auto simp: lower_lb)
  have 2: "filter ?Q (ci_set ?hs ''X-LB-Backend'' (name b)) = filter ?Q ?hs"
    by (rule ci_set_filter) (auto simp: lower_lb)
  have 3: "filter ?Q ?hs =
     filter (\<lambda>(k, v). lower k \<notin> {''x-lb-backend'', ''x-lb-duration-ms''} \<union> HOP_BY_HOP)
       (resp_headers resp)"
    by (auto intro: filter_cong)
  show ?thesis unfolding relay_headers 1 2 3 ..
qed

lemma complete_relay:
  assumes "fst (proxy_complete cfg t (Completed resp ms) g) = Some out"
  shows "\<exists>b. out = relay cfg t b resp ms"
  using assms by (auto simp: proxy_complete_def Let_def)

text \<open>
  Claim C7, as stated: when the inbound request carries an X-Forwarded-For header, the
  header sent upstream is the inbound value, a comma, a space and the caller's IP. An
  inbound header with an empty value is a header that is present, and the handler
  treats it as absent (\<^verbatim>\<open>if xff\<close>): upstream receives the caller's IP alone.
\<close>

theorem xff_empty_replaced:
  "dict_get (sent_headers (fst (proxy_dispatch source_config
       (plain_request\<lparr>headers := [(''X-Forwarded-For'', [])]\<rparr>) source_globals)))
     ''X-Forwarded-For'' = Some ''10.0.0.7''
   \<and> dict_get (sent_headers (fst (proxy_dispatch source_config
       (plain_request\<lparr>headers := [(''X-Forwarded-For'', [])]\<rparr>) source_globals)))
     ''X-Forwarded-For'' \<noteq> Some ([] @ '', '' @ ''10.0.0.7'')"
  by (simp add: proxy_dispatch_def source_config_def sticky_on_def plain_request_def
      pick_backend_sticky_def pick_backend_rr_def healthy_refs_def sg_backends Let_def
      forward_headers_def client_ip_of_def dict_of_items_def dict_set_def dict_get_def not_hop_forwarded
      sent_headers_def)

text \<open>
  Claim C7, amended. For every forwarded request the upstream request has exactly one
  header named X-Forwarded-For. With the client address being the IP of the peer, or
  \<^verbatim>\<open>unknown\<close> when the peer name is not available: if the inbound request has no
  header of that name, the value sent is the client address; if it has exactly one,
  with value \<open>x\<close>, the value sent is \<open>x\<close>, a comma, a space and the client address when
  \<open>x\<close> is not empty, and the client address alone when \<open>x\<close> is empty. Header names are
  compared as the framework delivers them.
\<close>

theorem xff_appended:
  assumes d: "proxy_dispatch cfg req g = (Forward t up, g1)"
    and p: "transport req = Transport peer"
  shows "distinct (map fst (up_headers up))
       \<and> ''X-Forwarded-For'' \<in> fst ` set (up_headers up)
       \<and> (''X-Forwarded-For'' \<notin> fst ` set (headers req) \<longrightarrow>
            dict_get (up_headers up) ''X-Forwarded-For'' = Some (client_ip_of peer))
       \<and> (filter (\<lambda>(k, v). k = ''X-Forwarded-For'') (headers req) = [(''X-Forwarded-For'', x)] \<longrightarrow>
            dict_get (up_headers up) ''X-Forwarded-For'' =
              Some (if x = [] then client_ip_of peer else x @ '', '' @ client_ip_of peer))"
proof -
  from dispatch_Forward [OF d] p have up: "up_headers up = forward_headers req peer" by auto
  have a: "distinct (map fst (up_headers up))"
    unfolding up by (rule forward_headers_distinct)
  have b: "dict_get (up_headers up) ''X-Forwarded-For'' = Some (client_ip_of peer)"
    if "''X-Forwarded-For'' \<notin> fst ` set (headers req)"
    unfolding up dict_get_def forward_headers_xff inbound_xff_absent [OF that] by simp
  have c: "dict_get (up_headers up) ''X-Forwarded-For'' =
              Some (if x = [] then client_ip_of peer else x @ '', '' @ client_ip_of peer)"
    if "filter (\<lambda>(k, v). k = ''X-Forwarded-For'') (headers req) = [(''X-Forwarded-For'', x)]"
    unfolding up dict_get_def forward_headers_xff inbound_xff_once [OF that] by simp
  have e: "''X-Forwarded-For'' \<in> fst ` set (up_headers up)"
    unfolding up forward_headers_keys by simp
  from a e b c show ?thesis by blast
qed

text \<open>A request that already went through one proxy.\<close>

theorem xff_appended_witness:
  "transport (plain_request\<lparr>headers := [(''Host'', ''lb''), (''X-Forwarded-For'', ''203.0.113.9'')]\<rparr>) =
     Transport (Some (''10.0.0.7'', 51234))
   \<and> client_ip_of (Some (''10.0.0.7'', 51234)) = ''10.0.0.7''
   \<and> dict_get (sent_headers (fst (proxy_dispatch source_config
         (plain_request\<lparr>headers := [(''Host'', ''lb''), (''X-Forwarded-For'', ''203.0.113.9'')]\<rparr>)
         source_globals))) ''X-Forwarded-For'' = Some ''203.0.113.9, 10.0.0.7''"
proof -
  have p: "transport (plain_request\<lparr>headers := [(''Host'', ''lb''), (''X-Forwarded-For'', ''203.0.113.9'')]\<rparr>) =
     Transport (Some (''10.0.0.7'', 51234))"
    by (simp add: plain_request_def)
  show ?thesis
    using xff_appended [OF dispatch_xff p, where x = "''203.0.113.9''"] p
    by (simp add: dispatch_xff sent_headers_def client_ip_of_def)
qed

text \<open>
  Claim C6, as stated: every inbound header outside the hop-by-hop set is copied to the
  upstream request. An inbound X-Forwarded-Proto header is not hop-by-hop and is not
  copied: the handler overwrites it with the scheme of the inbound request.
\<close>

theorem forwarded_proto_overwritten:
  "(''X-Forwarded-Proto'', ''https'') \<in>
      set (headers (plain_request\<lparr>headers := [(''X-Forwarded-Proto'', ''https'')]\<rparr>))
   \<and> lower ''X-Forwarded-Proto'' \<notin> HOP_BY_HOP
   \<and> (''X-Forwarded-Proto'', ''https'') \<notin>
      set (sent_headers (fst (proxy_dispatch source_config
             (plain_request\<lparr>headers := [(''X-Forwarded-Proto'', ''https'')]\<rparr>) source_globals)))"
  by (simp add: proxy_dispatch_def source_config_def sticky_on_def plain_request_def
      pick_backend_sticky_def pick_backend_rr_def healthy_refs_def sg_backends Let_def
      forward_headers_def client_ip_of_def dict_of_items_def dict_set_def dict_get_def not_hop_forwarded
      sent_headers_def)

text \<open>
  Claim C6, amended. No header of the upstream request and no header of the relayed
  response has a name that is, case-insensitively, in the hop-by-hop set. Every header
  of the upstream request other than X-Forwarded-For and X-Forwarded-Proto, which the
  handler sets, is an inbound header; and every inbound header outside the hop-by-hop
  set, other than those two, whose name occurs once in the request is forwarded
  unchanged, whatever else the request repeats. The headers of the relayed response
  other than X-LB-Backend and X-LB-Duration-ms, which the handler sets, are the
  upstream response headers outside the hop-by-hop set, in order and with repetitions.
\<close>

theorem hop_by_hop_stripped:
  assumes d: "proxy_dispatch cfg req g = (Forward t up, g1)"
    and c: "fst (proxy_complete cfg t (Completed resp ms) g2) = Some out"
  shows "(\<forall>(k, v) \<in> set (up_headers up). lower k \<notin> HOP_BY_HOP)
       \<and> (\<forall>(k, v) \<in> set (up_headers up).
             k \<noteq> ''X-Forwarded-For'' \<and> k \<noteq> ''X-Forwarded-Proto'' \<longrightarrow> (k, v) \<in> set (headers req))
       \<and> (\<forall>(k, v) \<in> set (headers req).
             lower k \<notin> HOP_BY_HOP \<and> k \<noteq> ''X-Forwarded-For'' \<and> k \<noteq> ''X-Forwarded-Proto''
             \<and> length (filter (\<lambda>p. fst p = k) (headers req)) = 1 \<longrightarrow>
             (k, v) \<in> set (up_headers up))
       \<and> (\<forall>(k, v) \<in> set (out_headers out). lower k \<notin> HOP_BY_HOP)
       \<and> filter (\<lambda>(k, v). lower k \<notin> {''x-lb-backend'', ''x-lb-duration-ms''}) (out_headers out) =
         filter (\<lambda>(k, v). lower k \<notin> {''x-lb-backend'', ''x-lb-duration-ms''} \<union> HOP_BY_HOP)
           (resp_headers resp)"
proof -
  from dispatch_Forward [OF d] obtain peer where up: "up_headers up = forward_headers req peer"
    by auto
  from complete_relay [OF c] obtain b where out: "out = relay cfg t b resp ms" ..
  have 1: "\<forall>(k, v) \<in> set (up_headers up). lower k \<notin> HOP_BY_HOP"
    unfolding up using forward_headers_no_hop by blast
  have 2: "\<forall>(k, v) \<in> set (up_headers up).
             k \<noteq> ''X-Forwarded-For'' \<and> k \<noteq> ''X-Forwarded-Proto'' \<longrightarrow> (k, v) \<in> set (headers req)"
    unfolding up using forward_headers_from_request by blast
  have 3: "\<forall>(k, v) \<in> set (headers req).
             lower k \<notin> HOP_BY_HOP \<and> k \<noteq> ''X-Forwarded-For'' \<and> k \<noteq> ''X-Forwarded-Proto''
             \<and> length (filter (\<lambda>p. fst p = k) (headers req)) = 1 \<longrightarrow>
             (k, v) \<in> set (up_headers up)"
    unfolding up using forward_headers_copies_once by blast
  have 4: "\<forall>(k, v) \<in> set (out_headers out). lower k \<notin> HOP_BY_HOP"
    unfolding out using relay_no_hop by blast
  have 5: "filter (\<lambda>(k, v). lower k \<notin> {''x-lb-backend'', ''x-lb-duration-ms''}) (out_headers out) =
         filter (\<lambda>(k, v). lower k \<notin> {''x-lb-backend'', ''x-lb-duration-ms''} \<union> HOP_BY_HOP)
           (resp_headers resp)"
    unfolding out by (rule relay_others)
  from 1 2 3 4 5 show ?thesis by blast
qed

text \<open>
  A request that repeats Accept and carries a Connection header, answered upstream with
  a Transfer-Encoding header: Host and User-Agent, which occur once, are forwarded.
\<close>

theorem hop_by_hop_stripped_witness:
  "length (filter (\<lambda>p. fst p = ''Host'')
      (headers (plain_request\<lparr>headers := [(''Host'', ''lb''), (''Accept'', ''text/html''),
          (''Accept'', ''*/*''), (''User-Agent'', ''curl''), (''Connection'', ''close'')]\<rparr>))) = 1
   \<and> (''Host'', ''lb'') \<in> set (sent_headers (fst (proxy_dispatch source_config
         (plain_request\<lparr>headers := [(''Host'', ''lb''), (''Accept'', ''text/html''),
          (''Accept'', ''*/*''), (''User-Agent'', ''curl''), (''Connection'', ''close'')]\<rparr>)
         source_globals)))
   \<and> (''User-Agent'', ''curl'') \<in> set (sent_headers (fst (proxy_dispatch source_config
         (plain_request\<lparr>headers := [(''Host'', ''lb''), (''Accept'', ''text/html''),
          (''Accept'', ''*/*''), (''User-Agent'', ''curl''), (''Connection'', ''close'')]\<rparr>)
         source_globals)))
   \<and> (''Connection'', ''close'') \<notin> set (sent_headers (fst (proxy_dispatch source_config
         (plain_request\<lparr>headers := [(''Host'', ''lb''), (''Accept'', ''text/html''),
          (''Accept'', ''*/*''), (''User-Agent'', ''curl''), (''Connection'', ''close'')]\<rparr>)
         source_globals)))
   \<and> map_option out_headers
        (fst (proxy_complete source_config \<lparr>task_backend = 0, cookie_choice = None\<rparr>
           (Completed \<lparr>resp_status = 200,
                       resp_headers = [(''Content-Type'', ''text/plain''),
                                       (''Transfer-Encoding'', ''chunked'')],
                       payload = ''hello''\<rparr> 12)
           source_globals)) =
       Some [(''Content-Type'', ''text/plain''), (''X-LB-Backend'', ''s1''),
             (''X-LB-Duration-ms'', ''12'')]"
proof -
  have ct: "lower ''Content-Type'' \<notin> HOP_BY_HOP" "lower ''Transfer-Encoding'' \<in> HOP_BY_HOP"
      "lower ''Content-Type'' \<noteq> lower ''X-LB-Backend''"
      "lower ''Content-Type'' \<noteq> lower ''X-LB-Duration-ms''"
      "lower ''X-LB-Backend'' \<noteq> lower ''X-LB-Duration-ms''"
    by (simp_all add: lower_def lower_char_def HOP_BY_HOP_def)
  have c: "fst (proxy_complete source_config \<lparr>task_backend = 0, cookie_choice = None\<rparr>
                 (Completed \<lparr>resp_status = 200,
                       resp_headers = [(''Content-Type'', ''text/plain''),
                                       (''Transfer-Encoding'', ''chunked'')],
                       payload = ''hello''\<rparr> 12) source_globals) =
      Some \<lparr>status = 200,
            out_headers = [(''Content-Type'', ''text/plain''), (''X-LB-Backend'', ''s1''),
                           (''X-LB-Duration-ms'', ''12'')],
            out_body = RawBody ''hello'',
            out_cookies = [\<lparr>c_name = ''LB_NODE'', c_value = ''s1'', c_max_age = 600,
                            c_path = ''/'', c_httponly = False\<rparr>]\<rparr>"
    by (simp add: proxy_complete_def Let_def relay_def ct sg_backends str_int_def digits.simps
        source_config_def sticky_on_def)
  show ?thesis
    using hop_by_hop_stripped [OF dispatch_repeated c]
    by (simp add: c dispatch_repeated sent_headers_def)
qed

section \<open>The active count\<close>

lemma pick_sticky_cases:
  "pick_backend_sticky cv g = (None, g) \<and> healthy_refs (BACKENDS g) = [] \<or>
   (\<exists>i g0. pick_backend_sticky cv g = (Some i, g0) \<and> BACKENDS g0 = BACKENDS g
        \<and> i \<in> set (healthy_refs (BACKENDS g)))"
proof (cases "healthy_refs (BACKENDS g) = []")
  case True
  then show ?thesis by (simp add: pick_sticky_none)
next
  case False
  have rr: "\<exists>i g0. pick_backend_rr g = (Some i, g0) \<and> BACKENDS g0 = BACKENDS g
        \<and> i \<in> set (healthy_refs (BACKENDS g))"
    using pick_rr_cases [of g] False by auto
  show ?thesis
  proof (cases cv)
    case None
    with False rr show ?thesis by (simp add: pick_backend_sticky_def)
  next
    case (Some c)
    show ?thesis
    proof (cases "find (\<lambda>i. name (BACKENDS g ! i) = c) (healthy_refs (BACKENDS g))")
      case None
      with False Some rr show ?thesis by (simp add: pick_backend_sticky_def)
    next
      case found: (Some j)
      then have "j \<in> set (healthy_refs (BACKENDS g))"
        by (auto simp: find_Some_iff)
      with False Some found rr show ?thesis by (simp add: pick_backend_sticky_def)
    qed
  qed
qed

text \<open>What a dispatch step does to the globals.\<close>

lemma dispatch_Respond:
  assumes "proxy_dispatch cfg req g = (Respond r, g1)"
  shows "length (BACKENDS g1) = length (BACKENDS g)
       \<and> (\<forall>j. active (BACKENDS g1 ! j) = active (BACKENDS g ! j))"
proof -
  obtain b g0 where sel: "(if sticky_on cfg
              then pick_backend_sticky (cookies req (the (STICKY_COOKIE cfg))) g
              else pick_backend_rr g) = (b, g0)"
    by (cases "if sticky_on cfg
              then pick_backend_sticky (cookies req (the (STICKY_COOKIE cfg))) g
              else pick_backend_rr g")
  have bk: "BACKENDS g0 = BACKENDS g"
    using sel pick_sticky_cases [of "cookies req (the (STICKY_COOKIE cfg))" g] pick_rr_cases [of g]
    by (auto split: if_splits)
  show ?thesis
  proof (cases b)
    case None
    with sel assms bk show ?thesis
      by (auto simp add: proxy_dispatch_def Let_def split: if_splits)
  next
    case (Some i)
    show ?thesis
    proof (cases "transport req")
      case NoTransport
      with sel Some assms have g1: "g1 = upd_backend i (\<lambda>b. b\<lparr>active := active b - 1\<rparr>)
                     (upd_backend i (\<lambda>b. b\<lparr>fail := fail b + 1\<rparr>)
                        (upd_backend i (\<lambda>b. b\<lparr>active := active b + 1\<rparr>) g0))"
        by (auto simp add: proxy_dispatch_def Let_def split: if_splits)
      have "active (BACKENDS g1 ! j) = active (BACKENDS g ! j)" for j
        unfolding g1 using bk
        by (cases "i < length (BACKENDS g)"; cases "j = i") (simp_all add: list_update_beyond)
      moreover have "length (BACKENDS g1) = length (BACKENDS g)"
        unfolding g1 using bk by simp
      ultimately show ?thesis by simp
    next
      case (Transport peer)
      with sel Some assms show ?thesis
        by (auto simp add: proxy_dispatch_def Let_def split: if_splits)
    qed
  qed
qed

lemma dispatch_Forward_active:
  assumes "proxy_dispatch cfg req g = (Forward t up, g1)"
  shows "task_backend t < length (BACKENDS g)
       \<and> length (BACKENDS g1) = length (BACKENDS g)
       \<and> active (BACKENDS g1 ! task_backend t) = active (BACKENDS g ! task_backend t) + 1
       \<and> (\<forall>j. j \<noteq> task_backend t \<longrightarrow> BACKENDS g1 ! j = BACKENDS g ! j)"
proof -
  from dispatch_Forward [OF assms] obtain g0 where
    sel: "(if sticky_on cfg
              then pick_backend_sticky (cookies req (the (STICKY_COOKIE cfg))) g
              else pick_backend_rr g) = (Some (task_backend t), g0)"
    and g1: "g1 = upd_backend (task_backend t) (\<lambda>b. b\<lparr>active := active b + 1\<rparr>) g0"
    by auto
  have "BACKENDS g0 = BACKENDS g \<and> task_backend t \<in> set (healthy_refs (BACKENDS g))"
    using sel pick_sticky_cases [of "cookies req (the (STICKY_COOKIE cfg))" g] pick_rr_cases [of g]
    by (auto split: if_splits)
  then have bk: "BACKENDS g0 = BACKENDS g" and lt: "task_backend t < length (BACKENDS g)"
    by (simp_all add: healthy_refs_mem)
  show ?thesis unfolding g1 using bk lt by simp
qed

lemma complete_active:
  assumes "task_backend t < length (BACKENDS g)"
  shows "active (BACKENDS (snd (proxy_complete cfg t out g)) ! task_backend t) =
         active (BACKENDS g ! task_backend t) - 1"
  using assms
  by (cases out) (simp_all add: complete_Completed complete_Raised complete_Cancelled)

lemma filter_remove_nth:
  assumes "k < length ts"
  shows "length (filter P (take k ts @ drop (Suc k) ts)) + (if P (ts ! k) then 1 else 0) =
         length (filter P ts)"
proof -
  have "filter P ts = filter P (take k ts @ ts ! k # drop (Suc k) ts)"
    using id_take_nth_drop [OF assms] by simp
  then show ?thesis by simp
qed

lemma check_backend_frame:
  "length (BACKENDS (check_backend i p g)) = length (BACKENDS g)"
  "active (BACKENDS (check_backend i p g) ! j) = active (BACKENDS g ! j)"
proof -
  show "length (BACKENDS (check_backend i p g)) = length (BACKENDS g)"
    by (cases p) (simp_all add: check_backend_def)
  show "active (BACKENDS (check_backend i p g) ! j) = active (BACKENDS g ! j)"
    by (cases p; cases "i < length (BACKENDS g)"; cases "j = i")
       (simp_all add: check_backend_def list_update_beyond)
qed

lemma step_balanced:
  assumes b: "balanced s"
  shows "balanced (snd (step cfg ev s))
       \<and> length (BACKENDS (glob (snd (step cfg ev s)))) = length (BACKENDS (glob s))"
proof (cases ev)
  case (Arrive req)
  obtain d g1 where pd: "proxy_dispatch cfg req (glob s) = (d, g1)"
    by (cases "proxy_dispatch cfg req (glob s)")
  show ?thesis
  proof (cases d)
    case (Respond r)
    from dispatch_Respond [OF pd [unfolded Respond]]
    have "length (BACKENDS g1) = length (BACKENDS (glob s))"
      and "\<And>j. active (BACKENDS g1 ! j) = active (BACKENDS (glob s) ! j)"
      by simp_all
    moreover have "snd (step cfg ev s) = s\<lparr>glob := g1\<rparr>"
      by (simp add: step_def Arrive pd Respond)
    ultimately show ?thesis using b by (simp add: balanced_def in_flight_def)
  next
    case (Forward t up)
    from dispatch_Forward_active [OF pd [unfolded Forward]]
    have lt: "task_backend t < length (BACKENDS (glob s))"
      and len: "length (BACKENDS g1) = length (BACKENDS (glob s))"
      and inc: "active (BACKENDS g1 ! task_backend t) =
                active (BACKENDS (glob s) ! task_backend t) + 1"
      and oth: "\<And>j. j \<noteq> task_backend t \<Longrightarrow> BACKENDS g1 ! j = BACKENDS (glob s) ! j"
      by simp_all
    have st: "snd (step cfg ev s) = s\<lparr>glob := g1, tasks := tasks s @ [t]\<rparr>"
      by (simp add: step_def Arrive pd Forward)
    have "active (BACKENDS g1 ! j) = int (in_flight j (s\<lparr>glob := g1, tasks := tasks s @ [t]\<rparr>))"
      if "j < length (BACKENDS (glob s))" for j
    proof (cases "j = task_backend t")
      case True
      with inc b that show ?thesis by (simp add: balanced_def in_flight_def)
    next
      case False
      with oth [OF False] b that show ?thesis by (simp add: balanced_def in_flight_def)
    qed
    with b lt len show ?thesis unfolding st by (simp add: balanced_def)
  qed
next
  case (Resume k out)
  show ?thesis
  proof (cases "k < length (tasks s)")
    case False
    with b show ?thesis by (simp add: step_def Resume)
  next
    case True
    let ?t = "tasks s ! k"
    let ?g = "snd (proxy_complete cfg ?t out (glob s))"
    let ?ts = "take k (tasks s) @ drop (Suc k) (tasks s)"
    have st: "snd (step cfg ev s) = s\<lparr>glob := ?g, tasks := ?ts\<rparr>"
      using True by (simp add: step_def Resume split: prod.split)
    have lt: "task_backend ?t < length (BACKENDS (glob s))"
      using b True by (simp add: balanced_def)
    have len: "length (BACKENDS ?g) = length (BACKENDS (glob s))"
      by (rule complete_length)
    have sub: "set ?ts \<subseteq> set (tasks s)"
      using set_take_subset [of k "tasks s"] set_drop_subset [of "Suc k" "tasks s"] by auto
    have cnt: "int (length (filter (\<lambda>t. task_backend t = j) ?ts)) =
               int (in_flight j s) - (if task_backend ?t = j then 1 else 0)" for j
      using filter_remove_nth [OF True, of "\<lambda>t. task_backend t = j"]
      by (cases "task_backend ?t = j") (simp_all add: in_flight_def)
    have "active (BACKENDS ?g ! j) = int (in_flight j (s\<lparr>glob := ?g, tasks := ?ts\<rparr>))"
      if "j < length (BACKENDS (glob s))" for j
    proof (cases "j = task_backend ?t")
      case True
      with complete_active [OF lt, of cfg out] cnt [of j] b that show ?thesis
        by (simp add: balanced_def in_flight_def)
    next
      case False
      with complete_other [OF False, of cfg out "glob s"] cnt [of j] b that show ?thesis
        by (simp add: balanced_def in_flight_def)
    qed
    with b len sub show ?thesis unfolding st by (auto simp: balanced_def)
  qed
next
  case (Probe i p)
  show ?thesis
    using b by (simp add: step_def Probe balanced_def in_flight_def check_backend_frame)
next
  case GetMetrics
  with b show ?thesis by (simp add: step_def)
next
  case GetHealth
  with b show ?thesis by (simp add: step_def)
qed

lemma run_balanced:
  "balanced s \<Longrightarrow>
   balanced (run cfg evs s) \<and> length (BACKENDS (glob (run cfg evs s))) = length (BACKENDS (glob s))"
proof (induction evs arbitrary: s)
  case Nil
  then show ?case by simp
next
  case (Cons ev evs)
  from step_balanced [OF Cons.prems, of cfg ev]
  have b: "balanced (snd (step cfg ev s))"
    and l: "length (BACKENDS (glob (snd (step cfg ev s)))) = length (BACKENDS (glob s))"
    by simp_all
  from Cons.IH [OF b] l show ?case by simp
qed

lemma started_balanced: "started s \<Longrightarrow> balanced s"
  by (simp add: started_def balanced_def in_flight_def list_all_length)

lemma run_plain_failed:
  "run source_config [Arrive plain_request, Resume 0 Raised] \<lparr>glob = source_globals, tasks = []\<rparr> =
     \<lparr>glob = \<lparr>BACKENDS =
                [\<lparr>name = ''s1'', url = ''http://127.0.0.1:8001'', healthy = True, weight = 1,
                  active = 0, ok = 0, fail = 1\<rparr>,
                 \<lparr>name = ''s2'', url = ''http://127.0.0.1:8002'', healthy = True, weight = 1,
                  active = 0, ok = 0, fail = 0\<rparr>],
              ROUND_ROBIN_INDEX = 1\<rparr>,
      tasks = []\<rparr>"
proof -
  let ?g1 = "upd_backend 0 (\<lambda>b. b\<lparr>active := active b + 1\<rparr>)
               (source_globals\<lparr>ROUND_ROBIN_INDEX := 1\<rparr>)"
  let ?t = "\<lparr>task_backend = 0, cookie_choice = None\<rparr>"
  have 1: "snd (step source_config (Arrive plain_request) \<lparr>glob = source_globals, tasks = []\<rparr>) =
           \<lparr>glob = ?g1, tasks = [?t]\<rparr>"
    by (simp add: step_def dispatch_plain)
  have 2: "snd (step source_config (Resume 0 Raised) \<lparr>glob = ?g1, tasks = [?t]\<rparr>) =
     \<lparr>glob = \<lparr>BACKENDS =
                [\<lparr>name = ''s1'', url = ''http://127.0.0.1:8001'', healthy = True, weight = 1,
                  active = 0, ok = 0, fail = 1\<rparr>,
                 \<lparr>name = ''s2'', url = ''http://127.0.0.1:8002'', healthy = True, weight = 1,
                  active = 0, ok = 0, fail = 0\<rparr>],
              ROUND_ROBIN_INDEX = 1\<rparr>,
      tasks = []\<rparr>"
    by (simp add: step_def proxy_complete_def Let_def upd_backend_def source_globals_def)
  show ?thesis by (simp add: 1 2)
qed

text \<open>
  Claim C1. A dispatch step that forwards a request to backend \<open>i\<close> has raised the
  active count of \<open>i\<close> by one when the request goes out; the completion step of that
  handler lowers it by one whatever the outcome \<open>out\<close> is (upstream response, exception,
  cancellation) and whatever ran in between (\<open>g2\<close>), and the step ends the handler, so
  this happens once. Hence, from the start of the process and for any sequence \<open>evs\<close> of
  arrivals, completions in any order, probes and auxiliary requests, the active count
  of every backend is the number of its requests in flight: it is never negative, and
  it is zero when no request is in flight.
\<close>

theorem active_count:
  assumes s0: "started s0" and i: "i < length (BACKENDS (glob s0))"
    and d: "proxy_dispatch cfg req g = (Forward t up, g1)"
    and len: "length (BACKENDS g2) = length (BACKENDS g)"
  shows "active (BACKENDS g1 ! task_backend t) = active (BACKENDS g ! task_backend t) + 1
       \<and> active (BACKENDS (snd (proxy_complete cfg t out g2)) ! task_backend t) =
           active (BACKENDS g2 ! task_backend t) - 1
       \<and> active (BACKENDS (glob (run cfg evs s0)) ! i) = int (in_flight i (run cfg evs s0))
       \<and> 0 \<le> active (BACKENDS (glob (run cfg evs s0)) ! i)
       \<and> (tasks (run cfg evs s0) = [] \<longrightarrow> active (BACKENDS (glob (run cfg evs s0)) ! i) = 0)"
proof -
  from dispatch_Forward_active [OF d]
  have lt: "task_backend t < length (BACKENDS g)"
    and inc: "active (BACKENDS g1 ! task_backend t) = active (BACKENDS g ! task_backend t) + 1"
    by simp_all
  have dec: "active (BACKENDS (snd (proxy_complete cfg t out g2)) ! task_backend t) =
           active (BACKENDS g2 ! task_backend t) - 1"
    using lt len by (intro complete_active) simp
  from run_balanced [OF started_balanced [OF s0], of cfg evs] i
  have eq: "active (BACKENDS (glob (run cfg evs s0)) ! i) = int (in_flight i (run cfg evs s0))"
    by (simp add: balanced_def)
  have z: "in_flight i (run cfg evs s0) = 0" if "tasks (run cfg evs s0) = []"
    using that by (simp add: in_flight_def)
  from inc dec eq z show ?thesis by simp
qed

text \<open>One request to the source configuration whose forwarding fails.\<close>

theorem active_count_witness:
  "started \<lparr>glob = source_globals, tasks = []\<rparr>
   \<and> active (BACKENDS (upd_backend 0 (\<lambda>b. b\<lparr>active := active b + 1\<rparr>)
                 (source_globals\<lparr>ROUND_ROBIN_INDEX := 1\<rparr>)) ! 0) = 1
   \<and> tasks (run source_config [Arrive plain_request, Resume 0 Raised]
              \<lparr>glob = source_globals, tasks = []\<rparr>) = []
   \<and> active (BACKENDS (glob (run source_config [Arrive plain_request, Resume 0 Raised]
              \<lparr>glob = source_globals, tasks = []\<rparr>)) ! 0) = 0"
proof -
  have s: "started \<lparr>glob = source_globals, tasks = []\<rparr>"
    by (simp add: started_def sg_backends)
  have i: "0 < length (BACKENDS (glob \<lparr>glob = source_globals, tasks = []\<rparr>))"
    by (simp add: sg_backends)
  have l: "length (BACKENDS (upd_backend 0 (\<lambda>b. b\<lparr>active := active b + 1\<rparr>)
                 (source_globals\<lparr>ROUND_ROBIN_INDEX := 1\<rparr>))) = length (BACKENDS source_globals)"
    by simp
  show ?thesis
    using s active_count [OF s i dispatch_plain l, where out = Raised
        and evs = "[Arrive plain_request, Resume 0 Raised]"]
    by (simp add: run_plain_failed sg_backends del: run.simps)
qed


end
